theory Spec2Isabelle
  imports Main
begin

section \<open>Python values\<close>

text \<open>
  The values that travel between the client and the GraphQL executor are the Python
  values a JSON body parses to, plus \<open>datetime\<close> objects, which the client stores
  inside the profile. A \<open>dict\<close> with string keys is an association list read with
  \<open>map_of\<close>; a JSON number is an integer here (no floating point).
\<close>

datatype pyval =
    PNone
  | PBool bool
  | PInt int
  | PStr string
  | PList "pyval list"
  | PDict "(string \<times> pyval) list"
  | PDatetime int

text \<open>
  Exceptions are values. The five classes of \<open>birdbuddy.exceptions\<close> that
  \<open>client.py\<close> imports, the built-in exceptions its statements can raise, and
  \<open>TransportError\<close> for whatever the executor itself raises.
\<close>

datatype error =
    AuthenticationFailedError error
  | AuthTokenExpiredError
  | NoResponseError
  | GraphqlError
  | UnexpectedResponseError pyval
  | AssertionError
  | KeyError
  | TypeError
  | AttributeError
  | UnboundLocalError
  | ValueError
  | IndexError
  | TransportError

text \<open>Truth value of a Python object, as \<open>not x\<close> and \<open>bool(x)\<close> read it.\<close>

fun truthy :: "pyval \<Rightarrow> bool" where
  "truthy PNone = False"
| "truthy (PBool b) = b"
| "truthy (PInt i) = (i \<noteq> 0)"
| "truthy (PStr s) = (s \<noteq> [])"
| "truthy (PList xs) = (xs \<noteq> [])"
| "truthy (PDict kvs) = (kvs \<noteq> [])"
| "truthy (PDatetime t) = True"

fun is_dict :: "pyval \<Rightarrow> bool" where
  "is_dict (PDict kvs) = True"
| "is_dict v = False"

text \<open>\<open>d[k]\<close> for a string key: \<open>KeyError\<close> on a dict without the key,
  \<open>TypeError\<close> on every value that is not a dict.\<close>

fun getitem :: "pyval \<Rightarrow> string \<Rightarrow> error + pyval" where
  "getitem (PDict kvs) k = (case map_of kvs k of None \<Rightarrow> Inl KeyError | Some v \<Rightarrow> Inr v)"
| "getitem v k = Inl TypeError"

text \<open>\<open>d.get(k, default)\<close>: only a dict has the method.\<close>

fun get :: "pyval \<Rightarrow> string \<Rightarrow> pyval \<Rightarrow> error + pyval" where
  "get (PDict kvs) k d = Inr (case map_of kvs k of None \<Rightarrow> d | Some v \<Rightarrow> v)"
| "get v k d = Inl AttributeError"

text \<open>\<open>d[k] = v\<close> for a string key; the key keeps its place when it is there already.\<close>

fun dict_store :: "(string \<times> pyval) list \<Rightarrow> string \<Rightarrow> pyval \<Rightarrow> (string \<times> pyval) list" where
  "dict_store [] k v = [(k, v)]"
| "dict_store ((k', v') # kvs) k v =
     (if k' = k then (k', v) # kvs else (k', v') # dict_store kvs k v)"

fun setitem :: "pyval \<Rightarrow> string \<Rightarrow> pyval \<Rightarrow> error + pyval" where
  "setitem (PDict kvs) k v = Inr (PDict (dict_store kvs k v))"
| "setitem x k v = Inl TypeError"

text \<open>What a \<open>for\<close> loop or a comprehension iterates over: the items of a list, the
  keys of a dict, the characters of a string; \<open>TypeError\<close> otherwise.\<close>

fun py_iter :: "pyval \<Rightarrow> error + pyval list" where
  "py_iter (PList xs) = Inr xs"
| "py_iter (PDict kvs) = Inr (map (\<lambda>kv. PStr (fst kv)) kvs)"
| "py_iter (PStr s) = Inr (map (\<lambda>c. PStr [c]) s)"
| "py_iter v = Inl TypeError"

subsection \<open>Dicts keyed by arbitrary hashable values\<close>

text \<open>
  The two caches are dicts keyed by whatever the remote sent as \<open>id\<close>. Lists and
  dicts are unhashable; \<open>True\<close> and \<open>1\<close> (\<open>False\<close> and \<open>0\<close>) are the same key.
  An entry keeps the key object and the position of its first insertion.
\<close>

fun hashable :: "pyval \<Rightarrow> bool" where
  "hashable (PList xs) = False"
| "hashable (PDict kvs) = False"
| "hashable v = True"

fun key_norm :: "pyval \<Rightarrow> pyval" where
  "key_norm (PBool b) = PInt (if b then 1 else 0)"
| "key_norm v = v"

fun cache_get :: "(pyval \<times> 'a) list \<Rightarrow> pyval \<Rightarrow> 'a option" where
  "cache_get [] k = None"
| "cache_get ((k', v') # d) k =
     (if key_norm k' = key_norm k then Some v' else cache_get d k)"

fun cache_set :: "(pyval \<times> 'a) list \<Rightarrow> pyval \<Rightarrow> 'a \<Rightarrow> (pyval \<times> 'a) list" where
  "cache_set [] k v = [(k, v)]"
| "cache_set ((k', v') # d) k v =
     (if key_norm k' = key_norm k then (k', v) # d else (k', v') # cache_set d k v)"

text \<open>\<open>d.update(other)\<close>: every item of \<open>other\<close>, in its order.\<close>

fun cache_update :: "(pyval \<times> 'a) list \<Rightarrow> (pyval \<times> 'a) list \<Rightarrow> (pyval \<times> 'a) list" where
  "cache_update d [] = d"
| "cache_update d ((k, v) # new) = cache_update (cache_set d k v) new"

definition cache_keys :: "(pyval \<times> 'a) list \<Rightarrow> pyval list" where
  "cache_keys d = map (\<lambda>kv. key_norm (fst kv)) d"

section \<open>The entities the client stores\<close>

text \<open>
  Modelled from the spec: \<open>Feeder\<close> (\<open>feeder.py\<close> is not part of the sources at hand).
  A Feeder is identified by \<open>id\<close> and holds the fields of the record it was built from;
  \<open>update\<close> merges a record into it: an incoming field overwrites the matching field,
  a field the record does not carry is retained.
\<close>

datatype Feeder = Feeder "(string \<times> pyval) list"

fun Feeder_fields :: "Feeder \<Rightarrow> (string \<times> pyval) list" where
  "Feeder_fields (Feeder kvs) = kvs"

fun dict_update :: "(string \<times> pyval) list \<Rightarrow> (string \<times> pyval) list \<Rightarrow> (string \<times> pyval) list" where
  "dict_update d [] = d"
| "dict_update d ((k, v) # new) = dict_update (dict_store d k v) new"

fun Feeder_update :: "Feeder \<Rightarrow> (string \<times> pyval) list \<Rightarrow> Feeder" where
  "Feeder_update (Feeder kvs) f = Feeder (dict_update kvs f)"

text \<open>
  Modelled from the spec: \<open>Collection\<close> (\<open>media.py\<close> is not part of the sources at
  hand). A Collection wraps the remote record, is identified by its \<open>id\<close> and carries
  the remote type tag \<open>__typename\<close>.
\<close>

datatype Collection = Collection pyval

fun collection_id :: "Collection \<Rightarrow> error + pyval" where
  "collection_id (Collection d) = getitem d ''id''"

fun collection_typename :: "Collection \<Rightarrow> error + pyval" where
  "collection_typename (Collection d) = getitem d ''__typename''"

text \<open>
  Modelled from the spec: \<open>PostcardSighting\<close>, its report, \<open>Sighting\<close> and
  \<open>SightingFinishStrategy\<close> (\<open>birds.py\<close> is not part of the sources at hand). A
  report has a token, a finishing strategy and an ordered list of sightings; a sighting
  has a cover-media id and is unlocked or not. Only \<open>RECOGNIZED\<close> is finished
  automatically; the other strategies are told apart by name only.
\<close>

datatype SightingFinishStrategy = RECOGNIZED | MANUAL_SELECTION | OTHER_STRATEGY string

record Sighting =
  cover_media :: pyval
  is_unlocked :: bool

record SightingReport =
  token :: pyval
  finishing_strategy :: SightingFinishStrategy
  sightings :: "Sighting list"

text \<open>
  Modelled from the spec: \<open>FeedNode\<close> (\<open>feed.py\<close> is not part of the sources at
  hand): a wrapper of the remote node record, read lazily; \<open>id\<close> and the type tag
  \<open>__typename\<close> are fields of the record.
\<close>

datatype FeedNode = FeedNode pyval

fun node_id :: "FeedNode \<Rightarrow> error + pyval" where
  "node_id (FeedNode d) = getitem d ''id''"

fun node_type :: "FeedNode \<Rightarrow> error + pyval" where
  "node_type (FeedNode d) = getitem d ''__typename''"

definition NewPostcard :: string where
  "NewPostcard = ''NewPostcard''"

text \<open>What \<open>sighting_from_postcard\<close> is called with: a \<open>str\<close>, a \<open>FeedNode\<close>, or
  an object that is neither.\<close>

datatype postcard_arg = ArgString string | ArgFeedNode FeedNode | ArgOther pyval

record PostcardSighting =
  report :: SightingReport
  postcard :: "postcard_arg option"

text \<open>What \<open>finish_postcard\<close> is called with: an instance of \<open>PostcardSighting\<close> or
  any other object.\<close>

datatype sighting_arg = IsPostcardSighting PostcardSighting | NotPostcardSighting pyval

text \<open>
  Modelled from the spec: \<open>Media\<close> (\<open>media.py\<close> is not part of the sources at hand),
  a wrapper of the remote media record.
\<close>

datatype Media = Media pyval

section \<open>The client and its environment\<close>

text \<open>A request as handed to \<open>graphql.execute_async\<close>. The only header the client
  ever builds is \<open>Authorization\<close>, the f-string \<open>Bearer {access_token}\<close>; it is kept
  unformatted.\<close>

datatype header_value = Bearer pyval

record request =
  rquery :: string
  rvariables :: pyval
  rheaders :: "(string \<times> header_value) list"

text \<open>A record handed to \<open>LOGGER\<close>: level, format string and arguments.\<close>

datatype log_level = DEBUG | VERBOSE | INFO | WARNING | EXCEPTION

datatype log_arg =
    ArgStr string
  | ArgVal pyval
  | ArgErr error
  | ArgDate "int option"
  | ArgReport SightingReport

record log_record =
  level :: log_level
  fmt :: string
  args :: "log_arg list"

text \<open>
  What the client depends on and \<open>client.py\<close> does not define: the executor of
  \<open>python_graphql_client\<close> (its answer to a request may depend on the requests
  executed before; \<open>Inl\<close> when it raises), the clock, the query documents of the
  \<open>queries\<close> package, \<open>GraphqlError.raise_errors\<close> (\<open>None\<close> when it returns), which
  exceptions an \<open>except GraphqlError\<close> clause catches, \<open>FeedNode.parse_datetime\<close>,
  and the constructor \<open>PostcardSighting(data)\<close>, which reads a report out of the
  remote record.
\<close>

record env =
  execute_async :: "request list \<Rightarrow> request \<Rightarrow> error + pyval"
  now :: "nat \<Rightarrow> int"
  raise_errors :: "pyval \<Rightarrow> error option"
  is_GraphqlError :: "error \<Rightarrow> bool"
  parse_datetime :: "string \<Rightarrow> error + int"
  new_PostcardSighting :: "pyval \<Rightarrow> error + SightingReport"
  SIGN_IN :: string
  REFRESH_AUTH_TOKEN :: string
  ME_query :: string
  FEED_query :: string
  POSTCARD_TO_SIGHTING :: string
  FINISH_SIGHTING :: string
  COLLECTIONS_query :: string
  COLLECTIONS_MEDIA :: string
  DUMP_SCHEMA :: string

text \<open>
  The instance of \<open>BirdBuddy\<close>. \<open>graphql\<close> is the executor, seen as the list of the
  requests it has executed, oldest first; \<open>LOGGER\<close> is the log written so far;
  \<open>clock\<close> counts the readings of \<open>datetime.now()\<close>. \<open>None\<close> is \<open>PNone\<close> for the
  tokens and the profile.
\<close>

record BirdBuddy =
  graphql :: "request list"
  email :: string
  password :: string
  access_token :: pyval
  refresh_token :: pyval
  me :: pyval
  feeders :: "(pyval \<times> Feeder) list"
  collections :: "(pyval \<times> Collection) list"
  last_feed_date :: "int option"
  LOGGER :: "log_record list"
  clock :: nat

definition init :: "string \<Rightarrow> string \<Rightarrow> BirdBuddy" where
  "init e p =
     \<lparr>graphql = [], email = e, password = p, access_token = PNone, refresh_token = PNone,
      me = PNone, feeders = [], collections = [], last_feed_date = None, LOGGER = [],
      clock = 0\<rparr>"

definition log :: "log_level \<Rightarrow> string \<Rightarrow> log_arg list \<Rightarrow> BirdBuddy \<Rightarrow> BirdBuddy" where
  "log l f as s = s\<lparr>LOGGER := LOGGER s @ [\<lparr>level = l, fmt = f, args = as\<rparr>]\<rparr>"

definition redact :: "pyval \<Rightarrow> bool \<Rightarrow> pyval" where
  "redact data redacted = (if redacted then PStr ''**REDACTED**'' else data)"

subsection \<open>The profile and the feeder cache\<close>

text \<open>The items of a dict. Where it is used the value is a dict: \<open>f["id"]\<close> has
  succeeded on it.\<close>

fun items :: "pyval \<Rightarrow> (string \<times> pyval) list" where
  "items (PDict kvs) = kvs"
| "items v = []"

fun save_feeders :: "BirdBuddy \<Rightarrow> pyval list \<Rightarrow> (error + bool) \<times> BirdBuddy" where
  "save_feeders s [] = (Inr True, s)"
| "save_feeders s (f # fs) =
     (case getitem f ''id'' of
        Inl e \<Rightarrow> (Inl e, s)
      | Inr i \<Rightarrow>
          if \<not> hashable i then (Inl TypeError, s)
          else (case cache_get (feeders s) i of
                  Some fd \<Rightarrow>
                    save_feeders
                      (s\<lparr>feeders := cache_set (feeders s) i (Feeder_update fd (items f))\<rparr>) fs
                | None \<Rightarrow>
                    save_feeders (s\<lparr>feeders := cache_set (feeders s) i (Feeder (items f))\<rparr>) fs))"

definition save_me :: "env \<Rightarrow> BirdBuddy \<Rightarrow> pyval \<Rightarrow> (error + bool) \<times> BirdBuddy" where
  "save_me ev s me_data =
     (if \<not> truthy me_data then (Inr False, s)
      else
        let stamp = PDatetime (now ev (clock s));
            s0 = s\<lparr>clock := Suc (clock s)\<rparr>
        in (case setitem me_data ''__last_updated'' stamp of
              Inl e \<Rightarrow> (Inl e, s0)
            | Inr me_data' \<Rightarrow>
                let s1 = s0\<lparr>me := me_data'\<rparr> in
                (case get me_data' ''feeders'' (PList []) of
                   Inl e \<Rightarrow> (Inl e, s1)
                 | Inr fs \<Rightarrow>
                     (case py_iter fs of
                        Inl e \<Rightarrow> (Inl e, s1)
                      | Inr fl \<Rightarrow> save_feeders s1 fl))))"

definition needs_login :: "BirdBuddy \<Rightarrow> bool" where
  "needs_login s = (refresh_token s = PNone)"

definition needs_refresh :: "BirdBuddy \<Rightarrow> bool" where
  "needs_refresh s = (access_token s = PNone)"

definition headers :: "BirdBuddy \<Rightarrow> (string \<times> header_value) list" where
  "headers s = [(''Authorization'', Bearer (access_token s))]"

definition clear :: "BirdBuddy \<Rightarrow> BirdBuddy" where
  "clear s = s\<lparr>access_token := PNone, refresh_token := PNone, me := PNone\<rparr>"

text \<open>\<open>query.partition("\n")[0]\<close>: the first line of the query.\<close>

definition first_line :: "string \<Rightarrow> string" where
  "first_line q = takeWhile (\<lambda>c. c \<noteq> CHR 0x0A) q"

subsection \<open>Authentication and the request pipeline\<close>

text \<open>
  \<open>_check_auth\<close>, \<open>_login\<close>, \<open>_refresh_access_token\<close> and \<open>_make_request\<close> call
  each other. Every function returns the value or the exception together with the
  client as the call leaves it: an assignment made before an exception stays made.
\<close>

function check_auth :: "env \<Rightarrow> BirdBuddy \<Rightarrow> (error + bool) \<times> BirdBuddy"
  and login :: "env \<Rightarrow> BirdBuddy \<Rightarrow> (error + bool) \<times> BirdBuddy"
  and refresh_access_token :: "env \<Rightarrow> BirdBuddy \<Rightarrow> (error + bool) \<times> BirdBuddy"
  and make_request ::
    "env \<Rightarrow> BirdBuddy \<Rightarrow> string \<Rightarrow> pyval \<Rightarrow> bool \<Rightarrow> bool \<Rightarrow> (error + pyval) \<times> BirdBuddy"
where
  "check_auth ev s =
     (if needs_login s then login ev (log DEBUG ''Login required'' [] s)
      else if needs_refresh s then
        (case refresh_access_token ev (log DEBUG ''Access token needs to be refreshed'' [] s) of
           (Inl e, s') \<Rightarrow> (Inl e, s')
         | (Inr b, s') \<Rightarrow> (Inr (\<not> needs_login s'), s'))
      else (Inr (\<not> needs_login s), s))"
| "login ev s =
     (if email s = [] \<or> password s = [] then (Inl AssertionError, s)
      else
        let variables =
              PDict [(''emailSignInInput'',
                      PDict [(''email'', PStr (email s)), (''password'', PStr (password s))])]
        in (case make_request ev s (SIGN_IN ev) variables False True of
              (Inl err, s') \<Rightarrow>
                if is_GraphqlError ev err
                then (Inl (AuthenticationFailedError err),
                      log EXCEPTION ''Error logging in: %s'' [ArgErr err] s')
                else (Inl err, s')
            | (Inr data, s') \<Rightarrow>
                (case getitem data ''authEmailSignIn'' of
                   Inl e \<Rightarrow> (Inl e, s')
                 | Inr result \<Rightarrow>
                     (case getitem result ''accessToken'' of
                        Inl e \<Rightarrow> (Inl e, s')
                      | Inr a \<Rightarrow>
                          let s1 = s'\<lparr>access_token := a\<rparr> in
                          (case getitem result ''refreshToken'' of
                             Inl e \<Rightarrow> (Inl e, s1)
                           | Inr r \<Rightarrow>
                               let s2 = s1\<lparr>refresh_token := r\<rparr> in
                               (case getitem result ''me'' of
                                  Inl e \<Rightarrow> (Inl e, s2)
                                | Inr m \<Rightarrow> save_me ev s2 m))))))"
| "refresh_access_token ev s =
     (if \<not> truthy (refresh_token s) then (Inl AssertionError, s)
      else
        let variables = PDict [(''refreshTokenInput'', PDict [(''token'', refresh_token s)])]
        in (case make_request ev s (REFRESH_AUTH_TOKEN ev) variables False True of
              (Inl exc, s') \<Rightarrow>
                if is_GraphqlError ev exc
                then (Inl (AuthenticationFailedError exc),
                      (log EXCEPTION ''Error refreshing access token: %s'' [ArgErr exc] s')
                        \<lparr>refresh_token := PNone\<rparr>)
                else (Inl exc, s')
            | (Inr data, s') \<Rightarrow>
                (case getitem data ''authRefreshToken'' of
                   Inl e \<Rightarrow> (Inl e, s')
                 | Inr tokens \<Rightarrow>
                     (case get tokens ''accessToken'' PNone of
                        Inl e \<Rightarrow> (Inl e, s')
                      | Inr a \<Rightarrow>
                          let s1 = s'\<lparr>access_token := a\<rparr> in
                          (case get tokens ''refreshToken'' PNone of
                             Inl e \<Rightarrow> (Inl e, s1)
                           | Inr r \<Rightarrow>
                               let s2 = log INFO ''Access token refreshed'' []
                                          (s1\<lparr>refresh_token := r\<rparr>)
                               in (Inr (\<not> needs_refresh s2), s2))))))"
| "make_request ev s query variables auth reauth =
     (case (if auth
            then (case check_auth ev s of
                    (Inl e, s1) \<Rightarrow> (Inl e, s1)
                  | (Inr b, s1) \<Rightarrow> (Inr (headers s1), s1))
            else (Inr [], s)) of
        (Inl e, s1) \<Rightarrow> (Inl e, s1)
      | (Inr hdrs, s1) \<Rightarrow>
          let should_redact = (query \<in> set [REFRESH_AUTH_TOKEN ev, SIGN_IN ev]);
              s2 = log DEBUG ''> GraphQL %s, vars=%s''
                     [ArgStr (first_line query), ArgVal (redact variables should_redact)] s1;
              req = \<lparr>rquery = query, rvariables = variables, rheaders = hdrs\<rparr>;
              s3 = s2\<lparr>graphql := graphql s2 @ [req]\<rparr>
          in (case execute_async ev (graphql s2) req of
                Inl e \<Rightarrow> (Inl e, s3)
              | Inr response \<Rightarrow>
                  if \<not> truthy response \<or> \<not> is_dict response then (Inl NoResponseError, s3)
                  else
                    (case get response ''errors'' (PList []) of
                       Inl e \<Rightarrow> (Inl e, s3)
                     | Inr errors \<Rightarrow>
                         (case raise_errors ev errors of
                            Some err \<Rightarrow>
                              if err = AuthTokenExpiredError then
                                let s4 = s3\<lparr>access_token := PNone\<rparr> in
                                if auth \<and> reauth
                                then make_request ev s4 query variables auth False
                                else (Inl err, s4)
                              else (Inl err, s3)
                          | None \<Rightarrow>
                              (case get response ''data'' PNone of
                                 Inl e \<Rightarrow> (Inl e, s3)
                               | Inr result \<Rightarrow>
                                   if \<not> is_dict result
                                   then (Inl (UnexpectedResponseError response), s3)
                                   else (Inr result,
                                         log VERBOSE ''< response: %s''
                                           [ArgVal (redact result should_redact)] s3))))))"
  by pat_completeness auto
termination
  apply (relation "measure (\<lambda>x. case x of
            Inl (Inl a) \<Rightarrow> 2
          | Inl (Inr a) \<Rightarrow> 1
          | Inr (Inl a) \<Rightarrow> 1
          | Inr (Inr (ev, s, q, v, auth, reauth)) \<Rightarrow>
              (if auth then (if reauth then 4 else 3) else 0))")
  apply auto
  done

declare check_auth.simps [simp del] login.simps [simp del]
  refresh_access_token.simps [simp del] make_request.simps [simp del]

section \<open>The operations of the client\<close>

definition dump_schema :: "env \<Rightarrow> BirdBuddy \<Rightarrow> (error + pyval) \<times> BirdBuddy" where
  "dump_schema ev s = make_request ev s (DUMP_SCHEMA ev) PNone False True"

definition refresh :: "env \<Rightarrow> BirdBuddy \<Rightarrow> (error + bool) \<times> BirdBuddy" where
  "refresh ev s =
     (case make_request ev s (ME_query ev) PNone True True of
        (Inl e, s1) \<Rightarrow> (Inl e, s1)
      | (Inr data, s1) \<Rightarrow>
          let s2 = log DEBUG ''Feeder data refreshed successfully: %s'' [ArgVal data] s1 in
          (case getitem data ''me'' of
             Inl e \<Rightarrow> (Inl e, s2)
           | Inr m \<Rightarrow> save_me ev s2 m))"

subsection \<open>The feed\<close>

text \<open>
  Modelled from the spec: \<open>Feed\<close> (\<open>feed.py\<close> is not part of the sources at hand). A
  feed page wraps the remote record and is read lazily. Its \<open>edges\<close> come newest
  first, each with a \<open>node\<close>; \<open>created_at\<close> parses the node's \<open>createdAt\<close>;
  \<open>newest_edge\<close> is the first edge; \<open>filter\<close> keeps the nodes of a type, or the nodes
  strictly newer than a timestamp, in the order of the page.
\<close>

datatype Feed = Feed pyval

fun created_at :: "env \<Rightarrow> FeedNode \<Rightarrow> error + int" where
  "created_at ev (FeedNode d) =
     (case getitem d ''createdAt'' of
        Inl e \<Rightarrow> Inl e
      | Inr (PStr x) \<Rightarrow> parse_datetime ev x
      | Inr v \<Rightarrow> Inl TypeError)"

fun edges :: "Feed \<Rightarrow> error + pyval list" where
  "edges (Feed d) = (case getitem d ''edges'' of Inl e \<Rightarrow> Inl e | Inr es \<Rightarrow> py_iter es)"

definition newest_created_at :: "env \<Rightarrow> Feed \<Rightarrow> error + int" where
  "newest_created_at ev fd =
     (case edges fd of
        Inl e \<Rightarrow> Inl e
      | Inr [] \<Rightarrow> Inl IndexError
      | Inr (edge # es) \<Rightarrow>
          (case getitem edge ''node'' of
             Inl e \<Rightarrow> Inl e
           | Inr n \<Rightarrow> created_at ev (FeedNode n)))"

fun filter_edges ::
  "env \<Rightarrow> pyval option \<Rightarrow> int option \<Rightarrow> pyval list \<Rightarrow> error + FeedNode list" where
  "filter_edges ev of_type newer_than [] = Inr []"
| "filter_edges ev of_type newer_than (edge # es) =
     (case getitem edge ''node'' of
        Inl e \<Rightarrow> Inl e
      | Inr n \<Rightarrow>
          (case (case of_type of
                   None \<Rightarrow> Inr True
                 | Some ty \<Rightarrow>
                     (case node_type (FeedNode n) of
                        Inl e \<Rightarrow> Inl e
                      | Inr ty' \<Rightarrow> Inr (ty' = ty))) of
             Inl e \<Rightarrow> Inl e
           | Inr type_ok \<Rightarrow>
               (case (case newer_than of
                        None \<Rightarrow> Inr True
                      | Some since \<Rightarrow>
                          (case created_at ev (FeedNode n) of
                             Inl e \<Rightarrow> Inl e
                           | Inr c \<Rightarrow> Inr (since < c))) of
                  Inl e \<Rightarrow> Inl e
                | Inr newer \<Rightarrow>
                    (case filter_edges ev of_type newer_than es of
                       Inl e \<Rightarrow> Inl e
                     | Inr ns \<Rightarrow>
                         Inr (if type_ok \<and> newer then FeedNode n # ns else ns)))))"

definition feed_filter ::
  "env \<Rightarrow> Feed \<Rightarrow> pyval option \<Rightarrow> int option \<Rightarrow> error + FeedNode list" where
  "feed_filter ev fd of_type newer_than =
     (case edges fd of
        Inl e \<Rightarrow> Inl e
      | Inr es \<Rightarrow> filter_edges ev of_type newer_than es)"

text \<open>\<open>feed(first, after, last, before)\<close>: \<open>last\<close> and \<open>before\<close> are accepted and
  never forwarded.\<close>

definition feed ::
  "env \<Rightarrow> BirdBuddy \<Rightarrow> pyval \<Rightarrow> pyval \<Rightarrow> pyval \<Rightarrow> pyval \<Rightarrow> (error + Feed) \<times> BirdBuddy" where
  "feed ev s first after last_n before =
     (let variables =
            (if truthy after then PDict [(''first'', first), (''after'', after)]
             else PDict [(''first'', first)])
      in (case make_request ev s (FEED_query ev) variables True True of
            (Inl e, s1) \<Rightarrow> (Inl e, s1)
          | (Inr data, s1) \<Rightarrow>
              (case getitem data ''me'' of
                 Inl e \<Rightarrow> (Inl e, s1)
               | Inr m \<Rightarrow>
                   (case getitem m ''feed'' of
                      Inl e \<Rightarrow> (Inl e, s1)
                    | Inr f \<Rightarrow> (Inr (Feed f), s1)))))"

text \<open>The argument \<open>since\<close> of \<open>refresh_feed\<close>: the sentinel \<open>_NO_VALUE\<close> when it is
  not given, \<open>None\<close>, a \<open>datetime\<close> or a \<open>str\<close>.\<close>

datatype since_arg = NO_VALUE | SinceNone | SinceDatetime int | SinceStr string

definition refresh_feed ::
  "env \<Rightarrow> BirdBuddy \<Rightarrow> since_arg \<Rightarrow> (error + FeedNode list) \<times> BirdBuddy" where
  "refresh_feed ev s since =
     (let since1 =
            (if since = NO_VALUE
             then (case last_feed_date s of None \<Rightarrow> SinceNone | Some t \<Rightarrow> SinceDatetime t)
             else since)
      in (case (case since1 of
                  SinceStr x \<Rightarrow>
                    (case parse_datetime ev x of Inl e \<Rightarrow> Inl e | Inr t \<Rightarrow> Inr (Some t))
                | SinceDatetime t \<Rightarrow> Inr (Some t)
                | SinceNone \<Rightarrow> Inr None
                | NO_VALUE \<Rightarrow> Inr None) of
            Inl e \<Rightarrow> (Inl e, s)
          | Inr since2 \<Rightarrow>
              (case feed ev s (PInt 20) PNone PNone PNone of
                 (Inl e, s1) \<Rightarrow> (Inl e, s1)
               | (Inr fd, s1) \<Rightarrow>
                   (case newest_created_at ev fd of
                      Inl e \<Rightarrow> (Inl e, s1)
                    | Inr newest_date \<Rightarrow>
                        let s2 =
                              (if Some newest_date \<noteq> last_feed_date s1
                               then (log DEBUG ''Updating latest seen Feed timestamp: %s -> %s''
                                       [ArgDate (last_feed_date s1), ArgDate (Some newest_date)] s1)
                                      \<lparr>last_feed_date := Some newest_date\<rparr>
                               else s1)
                        in (case feed_filter ev fd None since2 of
                              Inl e \<Rightarrow> (Inl e, s2)
                            | Inr ns \<Rightarrow> (Inr ns, s2))))))"

definition feed_nodes ::
  "env \<Rightarrow> BirdBuddy \<Rightarrow> pyval \<Rightarrow> (error + FeedNode list) \<times> BirdBuddy" where
  "feed_nodes ev s ty =
     (case feed ev s (PInt 20) PNone PNone PNone of
        (Inl e, s1) \<Rightarrow> (Inl e, s1)
      | (Inr fd, s1) \<Rightarrow>
          (case feed_filter ev fd (Some ty) None of
             Inl e \<Rightarrow> (Inl e, s1)
           | Inr ns \<Rightarrow> (Inr ns, s1)))"

definition new_postcards :: "env \<Rightarrow> BirdBuddy \<Rightarrow> (error + FeedNode list) \<times> BirdBuddy" where
  "new_postcards ev s = feed_nodes ev s (PStr NewPostcard)"

subsection \<open>Postcards and sightings\<close>

text \<open>\<open>postcard_id\<close> is assigned in the two branches of the \<open>isinstance\<close> test only:
  for any other argument the name is unbound where the variables are built.\<close>

definition sighting_from_postcard ::
  "env \<Rightarrow> BirdBuddy \<Rightarrow> postcard_arg \<Rightarrow> (error + PostcardSighting) \<times> BirdBuddy" where
  "sighting_from_postcard ev s pc =
     (case (case pc of
              ArgString x \<Rightarrow> Inr (PStr x)
            | ArgFeedNode n \<Rightarrow>
                (case node_type n of
                   Inl e \<Rightarrow> Inl e
                 | Inr ty \<Rightarrow> if ty \<noteq> PStr NewPostcard then Inl AssertionError else node_id n)
            | ArgOther v \<Rightarrow> Inl UnboundLocalError) of
        Inl e \<Rightarrow> (Inl e, s)
      | Inr postcard_id \<Rightarrow>
          let variables =
                PDict [(''sightingCreateFromPostcardInput'',
                        PDict [(''feedItemId'', postcard_id)])]
          in (case make_request ev s (POSTCARD_TO_SIGHTING ev) variables True True of
                (Inl e, s1) \<Rightarrow> (Inl e, s1)
              | (Inr result, s1) \<Rightarrow>
                  (case getitem result ''sightingCreateFromPostcard'' of
                     Inl e \<Rightarrow> (Inl e, s1)
                   | Inr data \<Rightarrow>
                       (case new_PostcardSighting ev data of
                          Inl e \<Rightarrow> (Inl e, s1)
                        | Inr r \<Rightarrow> (Inr \<lparr>report = r, postcard = Some pc\<rparr>, s1)))))"

definition finish_variables :: "string \<Rightarrow> SightingReport \<Rightarrow> pyval" where
  "finish_variables feed_item_id r =
     PDict [(''sightingReportPostcardFinishInput'',
             PDict [(''feedItemId'', PStr feed_item_id),
                    (''defaultCoverMedia'',
                       PList (map cover_media (filter is_unlocked (sightings r)))),
                    (''notSelectedMediaIds'', PList []),
                    (''reportToken'', token r)])]"

definition finish_postcard ::
  "env \<Rightarrow> BirdBuddy \<Rightarrow> string \<Rightarrow> sighting_arg \<Rightarrow> (error + bool) \<times> BirdBuddy" where
  "finish_postcard ev s feed_item_id sighting_result =
     (case sighting_result of
        NotPostcardSighting v \<Rightarrow>
          (Inr False, log WARNING ''Unexpected sighting result: %s'' [ArgVal v] s)
      | IsPostcardSighting ps \<Rightarrow>
          let r = report ps;
              strategy = finishing_strategy r
          in if strategy \<noteq> RECOGNIZED
             then (Inr False, log WARNING ''Requires manual selection: %s'' [ArgReport r] s)
             else
               (case make_request ev s (FINISH_SIGHTING ev)
                       (finish_variables feed_item_id r) True True of
                  (Inl e, s1) \<Rightarrow> (Inl e, s1)
                | (Inr data, s1) \<Rightarrow>
                    (case getitem data ''sightingReportPostcardFinish'' of
                       Inl e \<Rightarrow> (Inl e, s1)
                     | Inr fin \<Rightarrow>
                         (case getitem fin ''success'' of
                            Inl e \<Rightarrow> (Inl e, s1)
                          | Inr b \<Rightarrow> (Inr (truthy b), s1)))))"

subsection \<open>Collections\<close>

text \<open>\<open>str.capitalize()\<close> on ASCII text: the first character in upper case, the
  others in lower case.\<close>

definition ascii_upper :: "char \<Rightarrow> char" where
  "ascii_upper c =
     (let n = (of_char c :: nat) in if 97 \<le> n \<and> n \<le> 122 then char_of (n - 32) else c)"

definition ascii_lower :: "char \<Rightarrow> char" where
  "ascii_lower c =
     (let n = (of_char c :: nat) in if 65 \<le> n \<and> n \<le> 90 then char_of (n + 32) else c)"

fun capitalize :: "string \<Rightarrow> string" where
  "capitalize [] = []"
| "capitalize (c # cs) = ascii_upper c # map ascii_lower cs"

text \<open>The dict comprehension of \<open>refresh_collections\<close>: the condition on the type
  tag first, then the key, for each record in turn; an exception leaves no dict.\<close>

fun collect ::
  "string \<Rightarrow> pyval list \<Rightarrow> (pyval \<times> Collection) list \<Rightarrow> error + (pyval \<times> Collection) list" where
  "collect tn [] acc = Inr acc"
| "collect tn (d # ds) acc =
     (case getitem d ''__typename'' of
        Inl e \<Rightarrow> Inl e
      | Inr ty \<Rightarrow>
          if ty = PStr tn
          then (case collection_id (Collection d) of
                  Inl e \<Rightarrow> Inl e
                | Inr i \<Rightarrow>
                    if \<not> hashable i then Inl TypeError
                    else collect tn ds (cache_set acc i (Collection d)))
          else collect tn ds acc)"

definition refresh_collections ::
  "env \<Rightarrow> BirdBuddy \<Rightarrow> string \<Rightarrow> (error + (pyval \<times> Collection) list) \<times> BirdBuddy" where
  "refresh_collections ev s of_type =
     (case make_request ev s (COLLECTIONS_query ev) PNone True True of
        (Inl e, s1) \<Rightarrow> (Inl e, s1)
      | (Inr data, s1) \<Rightarrow>
          (case getitem data ''me'' of
             Inl e \<Rightarrow> (Inl e, s1)
           | Inr m \<Rightarrow>
               (case getitem m ''collections'' of
                  Inl e \<Rightarrow> (Inl e, s1)
                | Inr cs \<Rightarrow>
                    (case py_iter cs of
                       Inl e \<Rightarrow> (Inl e, s1)
                     | Inr ds \<Rightarrow>
                         (case collect (''Collection'' @ capitalize of_type) ds [] of
                            Inl e \<Rightarrow> (Inl e, s1)
                          | Inr new \<Rightarrow>
                              let s2 = s1\<lparr>collections := cache_update (collections s1) new\<rparr>
                              in (Inr (collections s2), s2))))))"

text \<open>The property \<open>collections\<close>.\<close>

definition get_collections :: "BirdBuddy \<Rightarrow> (pyval \<times> Collection) list \<times> BirdBuddy" where
  "get_collections s =
     (if needs_login s
      then ([], log WARNING ''BirdBuddy is not logged in. Call refresh_collections() first'' [] s)
      else (collections s, s))"

fun collect_media ::
  "pyval list \<Rightarrow> (pyval \<times> Media) list \<Rightarrow> error + (pyval \<times> Media) list" where
  "collect_media [] acc = Inr acc"
| "collect_media (edge # es) acc =
     (case getitem edge ''node'' of
        Inl e \<Rightarrow> Inl e
      | Inr n \<Rightarrow>
          (case getitem n ''media'' of
             Inl e \<Rightarrow> Inl e
           | Inr node \<Rightarrow>
               (case getitem node ''id'' of
                  Inl e \<Rightarrow> Inl e
                | Inr i \<Rightarrow>
                    if \<not> hashable i then Inl TypeError
                    else collect_media es (cache_set acc i (Media node)))))"

definition collection ::
  "env \<Rightarrow> BirdBuddy \<Rightarrow> pyval \<Rightarrow> (error + (pyval \<times> Media) list) \<times> BirdBuddy" where
  "collection ev s cid =
     (case make_request ev s (COLLECTIONS_MEDIA ev) (PDict [(''collectionId'', cid)]) True True of
        (Inl e, s1) \<Rightarrow> (Inl e, s1)
      | (Inr data, s1) \<Rightarrow>
          (case getitem data ''collection'' of
             Inl e \<Rightarrow> (Inl e, s1)
           | Inr c \<Rightarrow>
               (case getitem c ''media'' of
                  Inl e \<Rightarrow> (Inl e, s1)
                | Inr m \<Rightarrow>
                    (case getitem m ''edges'' of
                       Inl e \<Rightarrow> (Inl e, s1)
                     | Inr es \<Rightarrow>
                         (case py_iter es of
                            Inl e \<Rightarrow> (Inl e, s1)
                          | Inr el \<Rightarrow>
                              (case collect_media el [] of
                                 Inl e \<Rightarrow> (Inl e, s1)
                               | Inr ms \<Rightarrow> (Inr ms, s1)))))))"

text \<open>The property \<open>feeders\<close>.\<close>

definition get_feeders :: "BirdBuddy \<Rightarrow> (pyval \<times> Feeder) list \<times> BirdBuddy" where
  "get_feeders s =
     (if needs_login s
      then ([], log WARNING ''BirdBuddy is not logged in. Call refresh() first'' [] s)
      else (feeders s, s))"

section \<open>Well-formed inputs and derived notions\<close>





text \<open>
  The part of \<open>_make_request\<close> between authentication and the decision to retry, on
  its own: the request is logged and executed and the body is classified. It either
  finds a token expiry (the access token is then cleared) or finishes with the result
  or the exception of the call. \<open>make_request\<close> is not defined through it; that it
  behaves so is proved below.
\<close>

datatype outcome = Expired BirdBuddy | Finished "(error + pyval) \<times> BirdBuddy"

fun outcome_state :: "outcome \<Rightarrow> BirdBuddy" where
  "outcome_state (Expired s) = s"
| "outcome_state (Finished r) = snd r"

definition sending :: "env \<Rightarrow> BirdBuddy \<Rightarrow> string \<Rightarrow> pyval \<Rightarrow> (string \<times> header_value) list \<Rightarrow> BirdBuddy" where
  "sending ev s query variables hdrs =
     (log DEBUG ''> GraphQL %s, vars=%s''
        [ArgStr (first_line query),
         ArgVal (redact variables (query \<in> set [REFRESH_AUTH_TOKEN ev, SIGN_IN ev]))] s)
       \<lparr>graphql := graphql s @ [\<lparr>rquery = query, rvariables = variables, rheaders = hdrs\<rparr>]\<rparr>"

definition transmit ::
  "env \<Rightarrow> BirdBuddy \<Rightarrow> string \<Rightarrow> pyval \<Rightarrow> (string \<times> header_value) list \<Rightarrow> outcome" where
  "transmit ev s query variables hdrs =
     (let s3 = sending ev s query variables hdrs in
      case execute_async ev (graphql s)
             \<lparr>rquery = query, rvariables = variables, rheaders = hdrs\<rparr> of
        Inl e \<Rightarrow> Finished (Inl e, s3)
      | Inr response \<Rightarrow>
          if \<not> truthy response \<or> \<not> is_dict response then Finished (Inl NoResponseError, s3)
          else
            (case get response ''errors'' (PList []) of
               Inl e \<Rightarrow> Finished (Inl e, s3)
             | Inr errors \<Rightarrow>
                 (case raise_errors ev errors of
                    Some err \<Rightarrow>
                      if err = AuthTokenExpiredError
                      then Expired (s3\<lparr>access_token := PNone\<rparr>)
                      else Finished (Inl err, s3)
                  | None \<Rightarrow>
                      (case get response ''data'' PNone of
                         Inl e \<Rightarrow> Finished (Inl e, s3)
                       | Inr result \<Rightarrow>
                           if \<not> is_dict result
                           then Finished (Inl (UnexpectedResponseError response), s3)
                           else Finished
                                  (Inr result,
                                   log VERBOSE ''< response: %s''
                                     [ArgVal (redact result
                                        (query \<in> set [REFRESH_AUTH_TOKEN ev, SIGN_IN ev]))] s3)))))"

text \<open>The body of a response reports a token expiry: it passes the checks of the
  pipeline and \<open>raise_errors\<close> raises \<open>AuthTokenExpiredError\<close> on its error list.\<close>

definition reports_expiry :: "env \<Rightarrow> pyval \<Rightarrow> bool" where
  "reports_expiry ev response =
     (truthy response \<and> is_dict response \<and>
      (case get response ''errors'' (PList []) of
         Inl e \<Rightarrow> False
       | Inr errors \<Rightarrow> raise_errors ev errors = Some AuthTokenExpiredError))"

text \<open>The attempts of an authenticated call are the requests that carry the
  \<open>Authorization\<close> header; the requests of login and token refresh carry none.\<close>

definition attempts :: "request list \<Rightarrow> nat" where
  "attempts rs = length (filter (\<lambda>r. rheaders r \<noteq> []) rs)"

text \<open>A relation between the client before and after a call that holds across every
  assignment to the log, the tokens, the profile, the feeder cache and the clock. Such
  a relation holds across the whole pipeline once it holds across a transmission.\<close>

definition local_steps :: "(BirdBuddy \<Rightarrow> BirdBuddy \<Rightarrow> bool) \<Rightarrow> bool" where
  "local_steps R =
     ((\<forall>s. R s s) \<and> (\<forall>s t u. R s t \<longrightarrow> R t u \<longrightarrow> R s u)
      \<and> (\<forall>s x. R s (s\<lparr>LOGGER := x\<rparr>)) \<and> (\<forall>s x. R s (s\<lparr>access_token := x\<rparr>))
      \<and> (\<forall>s x. R s (s\<lparr>refresh_token := x\<rparr>)) \<and> (\<forall>s x. R s (s\<lparr>me := x\<rparr>))
      \<and> (\<forall>s x. R s (s\<lparr>feeders := x\<rparr>)) \<and> (\<forall>s x. R s (s\<lparr>clock := x\<rparr>)))"

text \<open>The request of an authenticated call as it is sent from a client \<open>s\<close>, and
  the client after that transmission has met a token expiry: the request is logged and
  recorded, the access token is cleared.\<close>

definition request_with_auth :: "BirdBuddy \<Rightarrow> string \<Rightarrow> pyval \<Rightarrow> request" where
  "request_with_auth s q v = \<lparr>rquery = q, rvariables = v, rheaders = headers s\<rparr>"

definition after_expiry :: "env \<Rightarrow> BirdBuddy \<Rightarrow> string \<Rightarrow> pyval \<Rightarrow> BirdBuddy" where
  "after_expiry ev s q v = (sending ev s q v (headers s))\<lparr>access_token := PNone\<rparr>"

text \<open>Between two clients only requests without the \<open>Authorization\<close> header were
  executed.\<close>

definition unauthenticated_traffic :: "BirdBuddy \<Rightarrow> BirdBuddy \<Rightarrow> bool" where
  "unauthenticated_traffic s s' = (\<exists>rs. graphql s' = graphql s @ rs \<and> attempts rs = 0)"

text \<open>
  The diagnostic output of one request as the redaction contract words it: the value
  shown for the variables, and for the response, is the redaction marker when the query
  is the sign-in or the token-refresh query, and the value itself for any other query.
\<close>

definition shown :: "env \<Rightarrow> string \<Rightarrow> pyval \<Rightarrow> pyval" where
  "shown ev q x = (if q = REFRESH_AUTH_TOKEN ev \<or> q = SIGN_IN ev then PStr ''**REDACTED**'' else x)"

definition request_record :: "env \<Rightarrow> string \<Rightarrow> pyval \<Rightarrow> log_record" where
  "request_record ev q v =
     \<lparr>level = DEBUG, fmt = ''> GraphQL %s, vars=%s'',
      args = [ArgStr (first_line q), ArgVal (shown ev q v)]\<rparr>"

definition response_record :: "env \<Rightarrow> string \<Rightarrow> pyval \<Rightarrow> log_record" where
  "response_record ev q d =
     \<lparr>level = VERBOSE, fmt = ''< response: %s'', args = [ArgVal (shown ev q d)]\<rparr>"

text \<open>The records of one transmission: the request, and the response when the call
  returns one.\<close>

definition diagnostics :: "env \<Rightarrow> string \<Rightarrow> pyval \<Rightarrow> error + pyval \<Rightarrow> log_record list" where
  "diagnostics ev q v r =
     request_record ev q v # (case r of Inl e \<Rightarrow> [] | Inr d \<Rightarrow> [response_record ev q d])"

text \<open>The fields that only the operations on the feed and on the collections assign:
  the request pipeline leaves them as they are.\<close>

definition untouched :: "BirdBuddy \<Rightarrow> BirdBuddy \<Rightarrow> bool" where
  "untouched s s' =
     (email s' = email s \<and> password s' = password s \<and> collections s' = collections s
      \<and> last_feed_date s' = last_feed_date s)"

text \<open>The entities a cache holds.\<close>

definition cache_values :: "(pyval \<times> 'a) list \<Rightarrow> 'a set" where
  "cache_values d = snd ` set d"

text \<open>A timestamp that may be unset is not earlier than another: unset is earlier
  than every timestamp.\<close>

definition not_earlier :: "int option \<Rightarrow> int option \<Rightarrow> bool" where
  "not_earlier new old =
     (case old of
        None \<Rightarrow> True
      | Some t \<Rightarrow> (case new of None \<Rightarrow> False | Some t' \<Rightarrow> t \<le> t'))"

text \<open>The timestamp \<open>refresh_feed\<close> filters with: the watermark when \<open>since\<close> is not
  given, the parsed string when it is a string.\<close>

definition since_value :: "env \<Rightarrow> BirdBuddy \<Rightarrow> since_arg \<Rightarrow> error + int option" where
  "since_value ev s since =
     (case (if since = NO_VALUE
            then (case last_feed_date s of None \<Rightarrow> SinceNone | Some t \<Rightarrow> SinceDatetime t)
            else since) of
        SinceStr x \<Rightarrow> (case parse_datetime ev x of Inl e \<Rightarrow> Inl e | Inr t \<Rightarrow> Inr (Some t))
      | SinceDatetime t \<Rightarrow> Inr (Some t)
      | SinceNone \<Rightarrow> Inr None
      | NO_VALUE \<Rightarrow> Inr None)"

text \<open>
  The session invariant: an access token is stored only together with a refresh token.
\<close>

definition session_ok :: "BirdBuddy \<Rightarrow> bool" where
  "session_ok s = (access_token s \<noteq> PNone \<longrightarrow> refresh_token s \<noteq> PNone)"

text \<open>
  A token payload that carries a refresh token whenever it carries an access token
  (a missing key and \<open>null\<close> both count as not carried), a \<open>data\<close> record whose
  sign-in and token-refresh payloads are such, and a remote that answers with such
  records only.
\<close>

definition tokens_ok :: "pyval \<Rightarrow> bool" where
  "tokens_ok p =
     (case get p ''accessToken'' PNone of
        Inl e \<Rightarrow> True
      | Inr a \<Rightarrow>
          a \<noteq> PNone \<longrightarrow>
            (case get p ''refreshToken'' PNone of Inl e \<Rightarrow> False | Inr r \<Rightarrow> r \<noteq> PNone))"

definition data_ok :: "pyval \<Rightarrow> bool" where
  "data_ok d =
     ((case getitem d ''authEmailSignIn'' of Inl e \<Rightarrow> True | Inr p \<Rightarrow> tokens_ok p)
      \<and> (case getitem d ''authRefreshToken'' of Inl e \<Rightarrow> True | Inr p \<Rightarrow> tokens_ok p))"

definition remote_ok :: "env \<Rightarrow> bool" where
  "remote_ok ev =
     (\<forall>hist req response d.
        execute_async ev hist req = Inr response \<longrightarrow>
        get response ''data'' PNone = Inr d \<longrightarrow> data_ok d)"

text \<open>
  The clients that can be reached from construction by the operations of the class:
  its public methods and properties, the pipeline and authentication methods called
  in any state, \<open>_clear\<close>, and \<open>_refresh_access_token\<close> where \<open>_check_auth\<close> calls it,
  that is when the access token is absent.
\<close>

inductive reachable :: "env \<Rightarrow> BirdBuddy \<Rightarrow> bool" for ev :: env where
  constructed: "reachable ev (init e p)"
| after_clear: "reachable ev s \<Longrightarrow> reachable ev (clear s)"
| after_login: "reachable ev s \<Longrightarrow> reachable ev (snd (login ev s))"
| after_refresh_access_token:
    "reachable ev s \<Longrightarrow> needs_refresh s \<Longrightarrow> reachable ev (snd (refresh_access_token ev s))"
| after_check_auth: "reachable ev s \<Longrightarrow> reachable ev (snd (check_auth ev s))"
| after_make_request:
    "reachable ev s \<Longrightarrow> reachable ev (snd (make_request ev s q v auth reauth))"
| after_dump_schema: "reachable ev s \<Longrightarrow> reachable ev (snd (dump_schema ev s))"
| after_refresh: "reachable ev s \<Longrightarrow> reachable ev (snd (refresh ev s))"
| after_feed: "reachable ev s \<Longrightarrow> reachable ev (snd (feed ev s first after last_n before))"
| after_refresh_feed: "reachable ev s \<Longrightarrow> reachable ev (snd (refresh_feed ev s since))"
| after_feed_nodes: "reachable ev s \<Longrightarrow> reachable ev (snd (feed_nodes ev s ty))"
| after_new_postcards: "reachable ev s \<Longrightarrow> reachable ev (snd (new_postcards ev s))"
| after_sighting_from_postcard:
    "reachable ev s \<Longrightarrow> reachable ev (snd (sighting_from_postcard ev s pc))"
| after_finish_postcard:
    "reachable ev s \<Longrightarrow> reachable ev (snd (finish_postcard ev s fid sr))"
| after_refresh_collections:
    "reachable ev s \<Longrightarrow> reachable ev (snd (refresh_collections ev s of_type))"
| after_get_collections: "reachable ev s \<Longrightarrow> reachable ev (snd (get_collections s))"
| after_collection: "reachable ev s \<Longrightarrow> reachable ev (snd (collection ev s cid))"
| after_get_feeders: "reachable ev s \<Longrightarrow> reachable ev (snd (get_feeders s))"

text \<open>The body of a response passes every check of the pipeline and carries the data
  \<open>d\<close>: it is a non-empty dict, \<open>raise_errors\<close> returns on its error list, and its
  \<open>data\<close> is the dict \<open>d\<close>.\<close>

definition answers_with :: "env \<Rightarrow> pyval \<Rightarrow> pyval \<Rightarrow> bool" where
  "answers_with ev response d =
     (truthy response \<and> is_dict response
      \<and> (case get response ''errors'' (PList []) of
            Inl e \<Rightarrow> False
          | Inr errors \<Rightarrow> raise_errors ev errors = None)
      \<and> get response ''data'' PNone = Inr d \<and> is_dict d)"

section \<open>An environment for concrete runs\<close>

text \<open>
  The executor replays a script: the \<open>n\<close>-th request it executes is answered by the
  \<open>n\<close>-th body of the script, and it raises once the script is used up. The error
  list of a body counts as a token expiry when it is the one list
  \<open>["AUTH_TOKEN_EXPIRED"]\<close>, as another remote error when it is not empty. A timestamp
  is written as a string of that many characters.
\<close>

definition scripted :: "pyval list \<Rightarrow> request list \<Rightarrow> request \<Rightarrow> error + pyval" where
  "scripted script hist req =
     (if length hist < length script then Inr (script ! length hist) else Inl TransportError)"

definition sample_raise_errors :: "pyval \<Rightarrow> error option" where
  "sample_raise_errors errors =
     (if \<not> truthy errors then None
      else if errors = PList [PStr ''AUTH_TOKEN_EXPIRED''] then Some AuthTokenExpiredError
      else Some GraphqlError)"

definition sample_env :: "pyval list \<Rightarrow> env" where
  "sample_env script =
     \<lparr>execute_async = scripted script,
      now = (\<lambda>n. 1000 + int n),
      raise_errors = sample_raise_errors,
      is_GraphqlError = (\<lambda>e. e = GraphqlError \<or> e = AuthTokenExpiredError),
      parse_datetime = (\<lambda>x. Inr (int (length x))),
      new_PostcardSighting = (\<lambda>d. Inl TypeError),
      SIGN_IN = ''mutation SignIn'',
      REFRESH_AUTH_TOKEN = ''mutation RefreshToken'',
      ME_query = ''query Me'',
      FEED_query = ''query Feed'',
      POSTCARD_TO_SIGHTING = ''mutation PostcardToSighting'',
      FINISH_SIGHTING = ''mutation FinishSighting'',
      COLLECTIONS_query = ''query Collections'',
      COLLECTIONS_MEDIA = ''query CollectionsMedia'',
      DUMP_SCHEMA = ''query Schema''\<rparr>"

text \<open>A client that has logged in: both tokens are set.\<close>

definition logged_in :: BirdBuddy where
  "logged_in = (init ''u@x.com'' ''pw'')\<lparr>access_token := PStr ''AT1'', refresh_token := PStr ''RT1''\<rparr>"



text \<open>Bodies of the remote: a token expiry, a successful token refresh, a page of
  data.\<close>

definition expired_body :: pyval where
  "expired_body = PDict [(''errors'', PList [PStr ''AUTH_TOKEN_EXPIRED''])]"

definition refreshed_body :: pyval where
  "refreshed_body =
     PDict [(''data'',
             PDict [(''authRefreshToken'',
                     PDict [(''accessToken'', PStr ''AT2''), (''refreshToken'', PStr ''RT2'')])])]"

definition signin_body :: pyval where
  "signin_body =
     PDict [(''data'',
             PDict [(''authEmailSignIn'',
                     PDict [(''accessToken'', PStr ''AT1''), (''refreshToken'', PStr ''RT1''),
                            (''me'', PDict [(''name'', PStr ''u'')])])])]"

definition me_body :: pyval where
  "me_body = PDict [(''data'', PDict [(''me'', PDict [(''name'', PStr ''u'')])])]"

definition credentials :: pyval where
  "credentials =
     PDict [(''emailSignInInput'',
             PDict [(''email'', PStr ''u@x.com''), (''password'', PStr ''pw'')])]"

text \<open>A recognized report with two sightings, the first of them unlocked, and the body
  with which the remote reports that a postcard was finished.\<close>

definition recognized_sighting :: PostcardSighting where
  "recognized_sighting =
     \<lparr>report =
        \<lparr>token = PStr ''tok'', finishing_strategy = RECOGNIZED,
         sightings = [\<lparr>cover_media = PStr ''m1'', is_unlocked = True\<rparr>,
                      \<lparr>cover_media = PStr ''m2'', is_unlocked = False\<rparr>]\<rparr>,
      postcard = Some (ArgString ''item-42'')\<rparr>"

definition finished_body :: pyval where
  "finished_body =
     PDict [(''data'', PDict [(''sightingReportPostcardFinish'', PDict [(''success'', PBool True)])])]"

text \<open>A body with two collections, a plant and a bird.\<close>

definition collections_body :: pyval where
  "collections_body =
     PDict [(''data'',
       PDict [(''me'',
         PDict [(''collections'',
           PList [PDict [(''id'', PStr ''c1''), (''__typename'', PStr ''CollectionPlant'')],
                  PDict [(''id'', PStr ''c2''), (''__typename'', PStr ''CollectionBird'')]])])])]"

text \<open>A feed page with one node, created at the given time.\<close>

definition feed_body :: "string \<Rightarrow> pyval" where
  "feed_body created =
     PDict [(''data'',
       PDict [(''me'',
         PDict [(''feed'',
           PDict [(''edges'',
             PList [PDict [(''node'',
               PDict [(''id'', PStr ''n1''), (''__typename'', PStr ''NewPostcard''),
                      (''createdAt'', PStr created)])]])])])])]"

text \<open>Sign-in bodies that are not as the remote should send them: one with an empty
  profile, one with \<open>null\<close> for the refresh token.\<close>

definition signin_no_profile_body :: pyval where
  "signin_no_profile_body =
     PDict [(''data'',
             PDict [(''authEmailSignIn'',
                     PDict [(''accessToken'', PStr ''AT1''), (''refreshToken'', PStr ''RT1''),
                            (''me'', PDict [])])])]"

definition signin_no_refresh_body :: pyval where
  "signin_no_refresh_body =
     PDict [(''data'',
             PDict [(''authEmailSignIn'',
                     PDict [(''accessToken'', PStr ''AT1''), (''refreshToken'', PNone),
                            (''me'', PDict [(''name'', PStr ''u'')])])])]"

text \<open>The body with which the remote reports that a postcard was not finished.\<close>

definition not_finished_body :: pyval where
  "not_finished_body =
     PDict [(''data'', PDict [(''sightingReportPostcardFinish'', PDict [(''success'', PBool False)])])]"

section \<open>Postcards: refusals\<close>

text \<open>
  C10. An argument of \<open>sighting_from_postcard\<close> that is neither a string nor a
  FeedNode leaves \<open>postcard_id\<close> unassigned: the call fails with the unbound-name
  error (\<open>UnboundLocalError\<close>, a \<open>NameError\<close>), which is none of the error kinds of
  \<open>birdbuddy.exceptions\<close>; no request has been executed and the client is exactly as
  it was, and no PostcardSighting is returned.
\<close>

theorem sighting_from_postcard_unbound_name:
  "sighting_from_postcard ev s (ArgOther v) = (Inl UnboundLocalError, s)"
  by (simp add: sighting_from_postcard_def)

text \<open>
  C5. When the sighting result is not a PostcardSighting, or its report's finishing
  strategy is not \<open>RECOGNIZED\<close>, \<open>finish_postcard\<close> returns \<open>False\<close>, executes no
  request and leaves every field of the client as it was; all it does is hand one
  warning to the logger.
\<close>

theorem finish_postcard_refuses:
  assumes "case sr of
             NotPostcardSighting v \<Rightarrow> True
           | IsPostcardSighting ps \<Rightarrow> finishing_strategy (report ps) \<noteq> RECOGNIZED"
  shows "fst (finish_postcard ev s fid sr) = Inr False
       \<and> graphql (snd (finish_postcard ev s fid sr)) = graphql s
       \<and> (snd (finish_postcard ev s fid sr))\<lparr>LOGGER := LOGGER s\<rparr> = s
       \<and> length (LOGGER (snd (finish_postcard ev s fid sr))) = Suc (length (LOGGER s))
       \<and> level (last (LOGGER (snd (finish_postcard ev s fid sr)))) = WARNING"
proof (cases sr)
  case (NotPostcardSighting v)
  then show ?thesis
    by (simp add: finish_postcard_def log_def)
next
  case (IsPostcardSighting ps)
  with assms have "finishing_strategy (report ps) \<noteq> RECOGNIZED"
    by simp
  with IsPostcardSighting show ?thesis
    by (simp add: finish_postcard_def log_def Let_def)
qed

theorem finish_postcard_refuses_witness:
  "fst (finish_postcard (sample_env []) logged_in ''item-42''
          (IsPostcardSighting
             \<lparr>report = \<lparr>token = PStr ''tok'', finishing_strategy = MANUAL_SELECTION,
                        sightings = [\<lparr>cover_media = PStr ''m1'', is_unlocked = True\<rparr>]\<rparr>,
              postcard = None\<rparr>)) = Inr False
   \<and> graphql (snd (finish_postcard (sample_env []) logged_in ''item-42''
          (IsPostcardSighting
             \<lparr>report = \<lparr>token = PStr ''tok'', finishing_strategy = MANUAL_SELECTION,
                        sightings = [\<lparr>cover_media = PStr ''m1'', is_unlocked = True\<rparr>]\<rparr>,
              postcard = None\<rparr>))) = []"
  using finish_postcard_refuses
    [of "IsPostcardSighting
           \<lparr>report = \<lparr>token = PStr ''tok'', finishing_strategy = MANUAL_SELECTION,
                      sightings = [\<lparr>cover_media = PStr ''m1'', is_unlocked = True\<rparr>]\<rparr>,
            postcard = None\<rparr>" "sample_env []" logged_in "''item-42''"]
  by (simp add: logged_in_def init_def)

section \<open>The profile and the feeder cache\<close>

lemma map_of_dict_store:
  "map_of (dict_store kvs k v) k' = (if k' = k then Some v else map_of kvs k')"
  by (induction kvs) auto

text \<open>Updating a Feeder with a record: a field of the record overwrites, a field the
  record does not carry is retained.\<close>

lemma map_of_dict_update:
  "map_of (dict_update d new) k =
     (case map_of (rev new) k of None \<Rightarrow> map_of d k | Some v \<Rightarrow> Some v)"
proof (induction new arbitrary: d)
  case Nil
  then show ?case by simp
next
  case (Cons kv new)
  obtain k' v' where kv: "kv = (k', v')" by (cases kv)
  show ?case
    by (simp add: kv Cons.IH map_of_dict_store map_add_def split: option.split)
qed

lemma Feeder_update_fields:
  "map_of (Feeder_fields (Feeder_update fd new)) k =
     (case map_of (rev new) k of None \<Rightarrow> map_of (Feeder_fields fd) k | Some v \<Rightarrow> Some v)"
  by (cases fd) (simp add: map_of_dict_update split: option.split)


lemma cache_get_None_iff: "cache_get d k = None \<longleftrightarrow> key_norm k \<notin> set (cache_keys d)"
  by (induction d) (force simp: cache_keys_def)+











section \<open>The request pipeline\<close>

text \<open>\<open>make_request\<close> is authentication, one transmission, and the retry.\<close>

lemma transmit_body:
  "(let should_redact = (query \<in> set [REFRESH_AUTH_TOKEN ev, SIGN_IN ev]);
        s2 = log DEBUG ''> GraphQL %s, vars=%s''
               [ArgStr (first_line query), ArgVal (redact variables should_redact)] s1;
        req = \<lparr>rquery = query, rvariables = variables, rheaders = hdrs\<rparr>;
        s3 = s2\<lparr>graphql := graphql s2 @ [req]\<rparr>
    in (case execute_async ev (graphql s2) req of
          Inl e \<Rightarrow> (Inl e, s3)
        | Inr response \<Rightarrow>
            if \<not> truthy response \<or> \<not> is_dict response then (Inl NoResponseError, s3)
            else
              (case get response ''errors'' (PList []) of
                 Inl e \<Rightarrow> (Inl e, s3)
               | Inr errors \<Rightarrow>
                   (case raise_errors ev errors of
                      Some err \<Rightarrow>
                        if err = AuthTokenExpiredError then
                          let s4 = s3\<lparr>access_token := PNone\<rparr> in
                          if c then K s4
                          else (Inl err, s4)
                        else (Inl err, s3)
                    | None \<Rightarrow>
                        (case get response ''data'' PNone of
                           Inl e \<Rightarrow> (Inl e, s3)
                         | Inr result \<Rightarrow>
                             if \<not> is_dict result
                             then (Inl (UnexpectedResponseError response), s3)
                             else (Inr result,
                                   log VERBOSE ''< response: %s''
                                     [ArgVal (redact result should_redact)] s3))))))
   = (case transmit ev s1 query variables hdrs of
             Expired s4 \<Rightarrow> if c then K s4 else (Inl AuthTokenExpiredError, s4)
           | Finished r \<Rightarrow> r)"
  by (simp add: transmit_def sending_def Let_def log_def split: sum.split option.split)

lemma make_request_unfold:
  "make_request ev s query variables auth reauth =
     (case (if auth
            then (case check_auth ev s of
                    (Inl e, s1) \<Rightarrow> (Inl e, s1)
                  | (Inr b, s1) \<Rightarrow> (Inr (headers s1), s1))
            else (Inr [], s)) of
        (Inl e, s1) \<Rightarrow> (Inl e, s1)
      | (Inr hdrs, s1) \<Rightarrow>
          (case transmit ev s1 query variables hdrs of
             Expired s4 \<Rightarrow>
               if auth \<and> reauth then make_request ev s4 query variables auth False
               else (Inl AuthTokenExpiredError, s4)
           | Finished r \<Rightarrow> r))"
  apply (subst make_request.simps)
  apply (subst transmit_body [where K = "\<lambda>s4. make_request ev s4 query variables auth False"])
  apply (rule refl)
  done

lemma make_request_noauth:
  "make_request ev s q v False r =
     (case transmit ev s q v [] of
        Expired s4 \<Rightarrow> (Inl AuthTokenExpiredError, s4)
      | Finished x \<Rightarrow> x)"
  by (subst make_request_unfold) (simp split: outcome.split)

lemma make_request_last:
  "make_request ev s q v True False =
     (case check_auth ev s of
        (Inl e, s1) \<Rightarrow> (Inl e, s1)
      | (Inr b, s1) \<Rightarrow>
          (case transmit ev s1 q v (headers s1) of
             Expired s4 \<Rightarrow> (Inl AuthTokenExpiredError, s4)
           | Finished x \<Rightarrow> x))"
  by (subst make_request_unfold) (simp split: prod.split sum.split outcome.split)

lemma make_request_first:
  "make_request ev s q v True True =
     (case check_auth ev s of
        (Inl e, s1) \<Rightarrow> (Inl e, s1)
      | (Inr b, s1) \<Rightarrow>
          (case transmit ev s1 q v (headers s1) of
             Expired s4 \<Rightarrow> make_request ev s4 q v True False
           | Finished x \<Rightarrow> x))"
  by (subst make_request_unfold) (simp split: prod.split sum.split outcome.split)

text \<open>What one transmission does to the client.\<close>

lemma transmit_cases:
  "(\<exists>response. execute_async ev (graphql s) \<lparr>rquery = q, rvariables = v, rheaders = h\<rparr> = Inr response
       \<and> reports_expiry ev response
       \<and> transmit ev s q v h = Expired ((sending ev s q v h)\<lparr>access_token := PNone\<rparr>))
   \<or> (\<exists>e. transmit ev s q v h = Finished (Inl e, sending ev s q v h)
          \<and> \<not> (\<exists>response. execute_async ev (graphql s) \<lparr>rquery = q, rvariables = v, rheaders = h\<rparr> = Inr response
                 \<and> reports_expiry ev response))
   \<or> (\<exists>response result.
          execute_async ev (graphql s) \<lparr>rquery = q, rvariables = v, rheaders = h\<rparr> = Inr response
        \<and> \<not> reports_expiry ev response
        \<and> get response ''data'' PNone = Inr result \<and> is_dict result
        \<and> transmit ev s q v h =
            Finished (Inr result,
                      log VERBOSE ''< response: %s''
                        [ArgVal (redact result (q \<in> set [REFRESH_AUTH_TOKEN ev, SIGN_IN ev]))]
                        (sending ev s q v h)))"
  by (auto simp: transmit_def reports_expiry_def Let_def split: sum.split option.split)


lemma save_feeders_frame: "\<exists>x. snd (save_feeders s fl) = s\<lparr>feeders := x\<rparr>"
proof (induction fl arbitrary: s)
  case Nil
  have "s = s\<lparr>feeders := feeders s\<rparr>" by simp
  then show ?case by (metis save_feeders.simps(1) snd_conv)
next
  case (Cons f fl)
  have keep: "\<exists>x. s = s\<lparr>feeders := x\<rparr>"
    by (rule exI [of _ "feeders s"]) simp
  have *: "\<exists>x. snd (save_feeders (s\<lparr>feeders := y\<rparr>) fl) = s\<lparr>feeders := x\<rparr>" for y
    using Cons.IH [of "s\<lparr>feeders := y\<rparr>"] by simp
  show ?case
    using keep * by (simp split: sum.split option.split)
qed

lemma save_me_frame:
  "\<exists>c x f. snd (save_me ev s m) = s\<lparr>clock := c, me := x, feeders := f\<rparr>"
proof -
  have keep: "\<exists>c x f. s = s\<lparr>clock := c, me := x, feeders := f\<rparr>"
    by (rule exI [of _ "clock s"], rule exI [of _ "me s"], rule exI [of _ "feeders s"]) simp
  have keep1: "\<exists>c' x f. s\<lparr>clock := c\<rparr> = s\<lparr>clock := c', me := x, feeders := f\<rparr>" for c
    by (rule exI [of _ c], rule exI [of _ "me s"], rule exI [of _ "feeders s"]) simp
  have keep2: "\<exists>c' x' f. s\<lparr>clock := c, me := x\<rparr> = s\<lparr>clock := c', me := x', feeders := f\<rparr>" for c x
    by (rule exI [of _ c], rule exI [of _ x], rule exI [of _ "feeders s"]) simp
  have loop: "\<exists>c' x' f. snd (save_feeders (s\<lparr>clock := c, me := x\<rparr>) fl)
                 = s\<lparr>clock := c', me := x', feeders := f\<rparr>" for c x fl
    using save_feeders_frame [of "s\<lparr>clock := c, me := x\<rparr>" fl] by auto
  show ?thesis
    using keep keep1 keep2 loop
    by (simp add: save_me_def Let_def split: sum.split)
qed

lemma save_me_rel:
  assumes "local_steps R"
  shows "R s (snd (save_me ev s m))"
proof -
  from assms have me: "\<And>s x. R s (s\<lparr>me := x\<rparr>)" and fe: "\<And>s x. R s (s\<lparr>feeders := x\<rparr>)"
    and cl: "\<And>s x. R s (s\<lparr>clock := x\<rparr>)" and tr: "\<And>s t u. R s t \<Longrightarrow> R t u \<Longrightarrow> R s u"
    unfolding local_steps_def by blast+
  obtain c x f where eq: "snd (save_me ev s m) = s\<lparr>clock := c, me := x, feeders := f\<rparr>"
    using save_me_frame by blast
  have "R s (s\<lparr>clock := c\<rparr>)" by (rule cl)
  moreover have "R (s\<lparr>clock := c\<rparr>) (s\<lparr>clock := c, me := x\<rparr>)"
    using me [of "s\<lparr>clock := c\<rparr>" x] by simp
  moreover have "R (s\<lparr>clock := c, me := x\<rparr>) (s\<lparr>clock := c, me := x, feeders := f\<rparr>)"
    using fe [of "s\<lparr>clock := c, me := x\<rparr>" f] by simp
  ultimately have "R s (s\<lparr>clock := c, me := x, feeders := f\<rparr>)"
    by (blast intro: tr)
  then show ?thesis using eq by simp
qed


lemma noauth_state:
  "snd (make_request ev s q v False r) = outcome_state (transmit ev s q v [])"
  by (simp add: make_request_noauth split: outcome.split)

lemma local_steps_after:
  assumes "local_steps R" and "R s t"
  shows "R s (t\<lparr>LOGGER := x\<rparr>)" and "R s (t\<lparr>access_token := a\<rparr>)"
    and "R s (t\<lparr>refresh_token := b\<rparr>)" and "R s (snd (save_me ev t m))"
proof -
  from assms(1) have tr: "\<And>s t u. R s t \<Longrightarrow> R t u \<Longrightarrow> R s u"
    unfolding local_steps_def by blast
  have "R t (t\<lparr>LOGGER := x\<rparr>)" "R t (t\<lparr>access_token := a\<rparr>)" "R t (t\<lparr>refresh_token := b\<rparr>)"
    using assms(1) unfolding local_steps_def by blast+
  moreover have "R t (snd (save_me ev t m))" using assms(1) by (rule save_me_rel)
  ultimately show "R s (t\<lparr>LOGGER := x\<rparr>)" and "R s (t\<lparr>access_token := a\<rparr>)"
    and "R s (t\<lparr>refresh_token := b\<rparr>)" and "R s (snd (save_me ev t m))"
    using tr [OF assms(2)] by blast+
qed

lemma login_rel:
  assumes L: "local_steps R" and T: "\<And>s q v. R s (outcome_state (transmit ev s q v []))"
  shows "R s (snd (login ev s))"
proof -
  have refl: "R s s" using L unfolding local_steps_def by blast
  define t where "t = snd (make_request ev s (SIGN_IN ev)
      (PDict [(''emailSignInInput'', PDict [(''email'', PStr (email s)), (''password'', PStr (password s))])])
      False True)"
  have st: "R s t" unfolding t_def noauth_state by (rule T)
  note after = local_steps_after [OF L]
  have 1: "R s (t\<lparr>LOGGER := x\<rparr>)" for x by (rule after(1) [OF st])
  have 2: "R s (t\<lparr>access_token := a\<rparr>)" for a by (rule after(2) [OF st])
  have 3: "R s (t\<lparr>access_token := a, refresh_token := b\<rparr>)" for a b
    using after(3) [OF 2 [of a], of b] by simp
  have 4: "R s (snd (save_me ev (t\<lparr>access_token := a, refresh_token := b\<rparr>) m))" for a b m
    by (rule after(4) [OF 3])
  show ?thesis
    apply (subst login.simps)
    apply (simp add: Let_def log_def refl split: prod.split sum.split)
    using st 1 2 3 4 unfolding t_def
    apply (auto simp: )
    done
qed


lemma refresh_access_token_rel:
  assumes L: "local_steps R" and T: "\<And>s q v. R s (outcome_state (transmit ev s q v []))"
  shows "R s (snd (refresh_access_token ev s))"
proof -
  have refl: "R s s" using L unfolding local_steps_def by blast
  define t where "t = snd (make_request ev s (REFRESH_AUTH_TOKEN ev)
      (PDict [(''refreshTokenInput'', PDict [(''token'', refresh_token s)])]) False True)"
  have st: "R s t" unfolding t_def noauth_state by (rule T)
  note after = local_steps_after [OF L]
  have 1: "R s (t\<lparr>LOGGER := x, refresh_token := b\<rparr>)" for x b
    using after(3) [OF after(1) [OF st, of x], of b] by simp
  have 2: "R s (t\<lparr>access_token := a\<rparr>)" for a by (rule after(2) [OF st])
  have 3: "R s (t\<lparr>access_token := a, refresh_token := b, LOGGER := x\<rparr>)" for a b x
    using after(1) [OF after(3) [OF 2 [of a], of b], of x] by simp
  show ?thesis
    apply (subst refresh_access_token.simps)
    apply (simp add: Let_def log_def refl split: prod.split sum.split)
    using st 1 2 3 unfolding t_def
    apply (auto simp: )
    done
qed

lemma check_auth_rel:
  assumes L: "local_steps R" and T: "\<And>s q v. R s (outcome_state (transmit ev s q v []))"
  shows "R s (snd (check_auth ev s))"
proof -
  have refl: "R s s" and tr: "\<And>s t u. R s t \<Longrightarrow> R t u \<Longrightarrow> R s u"
    and lg: "\<And>s x. R s (s\<lparr>LOGGER := x\<rparr>)"
    using L unfolding local_steps_def by blast+
  have 1: "R s (snd (login ev (s\<lparr>LOGGER := x\<rparr>)))" for x
    using tr [OF lg login_rel [OF L T]] .
  have 2: "R s (snd (refresh_access_token ev (s\<lparr>LOGGER := x\<rparr>)))" for x
    using tr [OF lg refresh_access_token_rel [OF L T]] .
  show ?thesis
    apply (subst check_auth.simps)
    apply (simp add: log_def refl 1 split: prod.split sum.split)
    using 2 apply (metis snd_conv)
    done
qed

lemma make_request_rel:
  assumes L: "local_steps R" and T: "\<And>s q v h. R s (outcome_state (transmit ev s q v h))"
  shows "R s (snd (make_request ev s q v auth reauth))"
proof -
  have tr: "\<And>s t u. R s t \<Longrightarrow> R t u \<Longrightarrow> R s u"
    using L unfolding local_steps_def by blast
  have ca: "R s (snd (check_auth ev s))" for s
    by (rule check_auth_rel [OF L T])
  have last: "R s (snd (make_request ev s q v True False))" for s
  proof (cases "check_auth ev s")
    case (Pair r s1)
    have s1: "R s s1" using ca [of s] Pair by simp
    have "R s1 (outcome_state (transmit ev s1 q v (headers s1)))" by (rule T)
    with s1 have "R s (outcome_state (transmit ev s1 q v (headers s1)))" by (rule tr)
    with s1 Pair show ?thesis
      by (auto simp: make_request_last split: sum.split outcome.split)
  qed
  have first: "R s (snd (make_request ev s q v True True))"
  proof (cases "check_auth ev s")
    case (Pair r s1)
    have s1: "R s s1" using ca [of s] Pair by simp
    have "R s1 (outcome_state (transmit ev s1 q v (headers s1)))" by (rule T)
    with s1 have o: "R s (outcome_state (transmit ev s1 q v (headers s1)))" by (rule tr)
    have "R s (snd (make_request ev s4 q v True False))"
      if "transmit ev s1 q v (headers s1) = Expired s4" for s4
      using tr [OF _ last [of s4]] o that by simp
    with s1 o Pair show ?thesis
      by (auto simp: make_request_first split: sum.split outcome.split)
  qed
  show ?thesis
  proof (cases auth)
    case False
    then show ?thesis using T [of s q v "[]"] by (simp add: noauth_state)
  next
    case True
    then show ?thesis using first last [of s] by (cases reauth) simp_all
  qed
qed

subsection \<open>Retry on token expiry\<close>

lemma transmit_graphql:
  "graphql (outcome_state (transmit ev s q v h)) =
     graphql s @ [\<lparr>rquery = q, rvariables = v, rheaders = h\<rparr>]"
  by (simp add: transmit_def sending_def log_def Let_def split: sum.split option.split)

lemma local_steps_unauthenticated: "local_steps unauthenticated_traffic"
  unfolding local_steps_def unauthenticated_traffic_def
  by (auto simp: attempts_def)

lemma check_auth_unauthenticated: "unauthenticated_traffic s (snd (check_auth ev s))"
  by (rule check_auth_rel [OF local_steps_unauthenticated])
     (simp add: unauthenticated_traffic_def transmit_graphql attempts_def)

lemma transmit_expired:
  assumes "execute_async ev (graphql s) \<lparr>rquery = q, rvariables = v, rheaders = h\<rparr> = Inr response"
    and "reports_expiry ev response"
  shows "transmit ev s q v h = Expired ((sending ev s q v h)\<lparr>access_token := PNone\<rparr>)"
  using assms
  by (auto simp: transmit_def reports_expiry_def Let_def split: sum.splits option.splits)

lemma last_attempt_traffic:
  "\<exists>rs. graphql (snd (make_request ev s q v True False)) = graphql s @ rs \<and> attempts rs \<le> 1"
proof (cases "check_auth ev s")
  case (Pair r s1)
  obtain rs where rs: "graphql s1 = graphql s @ rs" "attempts rs = 0"
    using check_auth_unauthenticated [of s ev] Pair by (auto simp: unauthenticated_traffic_def)
  show ?thesis
  proof (cases r)
    case (Inl e)
    with Pair rs show ?thesis by (simp add: make_request_last)
  next
    case (Inr b)
    have "snd (make_request ev s q v True False) = outcome_state (transmit ev s1 q v (headers s1))"
      using Pair Inr by (simp add: make_request_last split: outcome.split)
    then have "graphql (snd (make_request ev s q v True False)) =
                 graphql s @ (rs @ [\<lparr>rquery = q, rvariables = v, rheaders = headers s1\<rparr>])"
      by (simp add: transmit_graphql rs)
    moreover have "attempts (rs @ [\<lparr>rquery = q, rvariables = v, rheaders = headers s1\<rparr>]) \<le> 1"
      using rs by (simp add: attempts_def)
    ultimately show ?thesis by blast
  qed
qed

lemma first_attempt_traffic:
  "\<exists>rs. graphql (snd (make_request ev s q v True True)) = graphql s @ rs \<and> attempts rs \<le> 2"
proof (cases "check_auth ev s")
  case (Pair r s1)
  obtain rs where rs: "graphql s1 = graphql s @ rs" "attempts rs = 0"
    using check_auth_unauthenticated [of s ev] Pair by (auto simp: unauthenticated_traffic_def)
  show ?thesis
  proof (cases r)
    case (Inl e)
    with Pair rs show ?thesis by (simp add: make_request_first)
  next
    case (Inr b)
    define req where "req = \<lparr>rquery = q, rvariables = v, rheaders = headers s1\<rparr>"
    have one: "attempts (rs @ [req]) \<le> 1" using rs by (simp add: attempts_def)
    have sent: "graphql (outcome_state (transmit ev s1 q v (headers s1))) = graphql s @ (rs @ [req])"
      by (simp add: transmit_graphql rs req_def)
    show ?thesis
    proof (cases "transmit ev s1 q v (headers s1)")
      case (Expired s4)
      obtain rs' where rs': "graphql (snd (make_request ev s4 q v True False)) = graphql s4 @ rs'"
          "attempts rs' \<le> 1"
        using last_attempt_traffic by blast
      have "graphql s4 = graphql s @ (rs @ [req])" using sent Expired by simp
      then have "graphql (snd (make_request ev s q v True True)) = graphql s @ (rs @ [req] @ rs')"
        using Pair Inr Expired rs' by (simp add: make_request_first)
      moreover have "attempts (rs @ [req] @ rs') \<le> 2"
        using rs rs' by (simp add: attempts_def)
      ultimately show ?thesis by blast
    next
      case (Finished x)
      then have "graphql (snd (make_request ev s q v True True)) = graphql s @ (rs @ [req])"
        using Pair Inr sent by (simp add: make_request_first)
      moreover have "attempts (rs @ [req]) \<le> 2" using one by simp
      ultimately show ?thesis by blast
    qed
  qed
qed

text \<open>
  C1. An authenticated request is attempted at most twice, and at most once when
  reauthentication is disabled: of the requests a call of \<open>_make_request\<close> executes,
  at most two (one) carry the \<open>Authorization\<close> header. When authentication succeeds
  and the body of the first attempt reports a token expiry, the access token is cleared
  and the call is the same call made again from that client with reauthentication
  disabled; an attempt with reauthentication disabled that meets a token expiry raises
  \<open>AuthTokenExpiredError\<close> with the access token cleared. So when the retry meets a
  token expiry too the error reaches the caller after exactly two attempts.
\<close>

theorem make_request_retries_once:
  "(\<exists>rs. graphql (snd (make_request ev s q v True True)) = graphql s @ rs \<and> attempts rs \<le> 2)
   \<and> (\<exists>rs. graphql (snd (make_request ev s q v True False)) = graphql s @ rs \<and> attempts rs \<le> 1)
   \<and> (\<forall>b s1 response.
          check_auth ev s = (Inr b, s1)
          \<and> execute_async ev (graphql s1) (request_with_auth s1 q v) = Inr response
          \<and> reports_expiry ev response \<longrightarrow>
            access_token (after_expiry ev s1 q v) = PNone
          \<and> make_request ev s q v True True = make_request ev (after_expiry ev s1 q v) q v True False
          \<and> make_request ev s q v True False = (Inl AuthTokenExpiredError, after_expiry ev s1 q v)
          \<and> (\<forall>b' s2 response'.
                check_auth ev (after_expiry ev s1 q v) = (Inr b', s2)
                \<and> execute_async ev (graphql s2) (request_with_auth s2 q v) = Inr response'
                \<and> reports_expiry ev response' \<longrightarrow>
                  make_request ev s q v True True =
                    (Inl AuthTokenExpiredError, after_expiry ev s2 q v)
                \<and> (\<exists>rs. graphql (after_expiry ev s2 q v) = graphql s @ rs \<and> attempts rs = 2)))"
proof (intro conjI allI impI)
  show "\<exists>rs. graphql (snd (make_request ev s q v True True)) = graphql s @ rs \<and> attempts rs \<le> 2"
    by (rule first_attempt_traffic)
  show "\<exists>rs. graphql (snd (make_request ev s q v True False)) = graphql s @ rs \<and> attempts rs \<le> 1"
    by (rule last_attempt_traffic)
next
  fix b s1 response
  assume h: "check_auth ev s = (Inr b, s1)
          \<and> execute_async ev (graphql s1) (request_with_auth s1 q v) = Inr response
          \<and> reports_expiry ev response"
  then have tx: "transmit ev s1 q v (headers s1) = Expired (after_expiry ev s1 q v)"
    using transmit_expired [of ev s1 q v "headers s1" response]
    by (simp add: request_with_auth_def after_expiry_def)
  show "access_token (after_expiry ev s1 q v) = PNone"
    by (simp add: after_expiry_def)
  show first: "make_request ev s q v True True = make_request ev (after_expiry ev s1 q v) q v True False"
    using h tx by (simp add: make_request_first)
  show "make_request ev s q v True False = (Inl AuthTokenExpiredError, after_expiry ev s1 q v)"
    using h tx by (simp add: make_request_last)
  fix b' s2 response'
  assume h': "check_auth ev (after_expiry ev s1 q v) = (Inr b', s2)
                \<and> execute_async ev (graphql s2) (request_with_auth s2 q v) = Inr response'
                \<and> reports_expiry ev response'"
  then have tx': "transmit ev s2 q v (headers s2) = Expired (after_expiry ev s2 q v)"
    using transmit_expired [of ev s2 q v "headers s2" response']
    by (simp add: request_with_auth_def after_expiry_def)
  show "make_request ev s q v True True = (Inl AuthTokenExpiredError, after_expiry ev s2 q v)"
    using first h' tx' by (simp add: make_request_last)
  obtain rs where rs: "graphql s1 = graphql s @ rs" "attempts rs = 0"
    using check_auth_unauthenticated [of s ev] h by (auto simp: unauthenticated_traffic_def)
  obtain rs' where rs': "graphql s2 = graphql (after_expiry ev s1 q v) @ rs'" "attempts rs' = 0"
    using check_auth_unauthenticated [of "after_expiry ev s1 q v" ev] h'
    by (auto simp: unauthenticated_traffic_def)
  have "graphql (after_expiry ev s2 q v) =
          graphql s @ (rs @ [request_with_auth s1 q v] @ rs' @ [request_with_auth s2 q v])"
    using rs rs' by (simp add: after_expiry_def sending_def log_def request_with_auth_def)
  moreover have "attempts (rs @ [request_with_auth s1 q v] @ rs' @ [request_with_auth s2 q v]) = 2"
    using rs rs' by (simp add: attempts_def request_with_auth_def headers_def)
  ultimately show "\<exists>rs. graphql (after_expiry ev s2 q v) = graphql s @ rs \<and> attempts rs = 2"
    by blast
qed


text \<open>The equations that run the pipeline on a concrete client and script.\<close>

lemmas run_simps =
  make_request_first make_request_last make_request_noauth check_auth.simps login.simps
  refresh_access_token.simps transmit_def sending_def log_def Let_def redact_def first_line_def
  needs_login_def needs_refresh_def headers_def sample_env_def scripted_def
  sample_raise_errors_def logged_in_def init_def

theorem make_request_retries_once_witness:
  "check_auth (sample_env [expired_body, refreshed_body, expired_body]) logged_in
     = (Inr True, logged_in)
   \<and> execute_async (sample_env [expired_body, refreshed_body, expired_body]) (graphql logged_in)
       (request_with_auth logged_in ''query Me'' PNone) = Inr expired_body
   \<and> reports_expiry (sample_env [expired_body, refreshed_body, expired_body]) expired_body
   \<and> fst (make_request (sample_env [expired_body, refreshed_body, expired_body]) logged_in
            ''query Me'' PNone True True) = Inl AuthTokenExpiredError
   \<and> access_token (snd (make_request (sample_env [expired_body, refreshed_body, expired_body])
            logged_in ''query Me'' PNone True True)) = PNone
   \<and> map rquery (graphql (snd (make_request (sample_env [expired_body, refreshed_body, expired_body])
            logged_in ''query Me'' PNone True True)))
       = [''query Me'', ''mutation RefreshToken'', ''query Me'']
   \<and> attempts (graphql (snd (make_request (sample_env [expired_body, refreshed_body, expired_body])
            logged_in ''query Me'' PNone True True))) = 2"
  using make_request_retries_once
    [of "sample_env [expired_body, refreshed_body, expired_body]" logged_in "''query Me''" PNone]
  by (simp add: run_simps expired_body_def refreshed_body_def reports_expiry_def
      request_with_auth_def attempts_def)

subsection \<open>Redaction of diagnostic output\<close>

lemma sending_log: "LOGGER (sending ev s q v h) = LOGGER s @ [request_record ev q v]"
  by (auto simp: sending_def log_def redact_def shown_def request_record_def)

lemma transmit_log:
  "(\<exists>s4. transmit ev s q v h = Expired s4 \<and> LOGGER s4 = LOGGER s @ [request_record ev q v])
   \<or> (\<exists>r s'. transmit ev s q v h = Finished (r, s') \<and> LOGGER s' = LOGGER s @ diagnostics ev q v r)"
  using transmit_cases [of ev s q v h]
  by (auto simp: sending_log log_def redact_def shown_def response_record_def diagnostics_def)

text \<open>
  C9. The diagnostic output of a request is its request record and, when the call
  returns data, its response record; the value they show for the variables and for the
  response is the redaction marker exactly for the sign-in and the token-refresh query,
  and the value itself for every other query. This holds for a call without
  authentication, for an authenticated call after its authentication, and for each of
  the two attempts of a call that is retried.
\<close>

theorem make_request_redacts:
  "LOGGER (snd (make_request ev s q v False r)) =
     LOGGER s @ diagnostics ev q v (fst (make_request ev s q v False r))
   \<and> (\<forall>b s1. check_auth ev s = (Inr b, s1) \<longrightarrow>
         LOGGER (snd (make_request ev s q v True False)) =
           LOGGER s1 @ diagnostics ev q v (fst (make_request ev s q v True False))
       \<and> (make_request ev s q v True True = make_request ev s q v True False
          \<or> LOGGER (after_expiry ev s1 q v) = LOGGER s1 @ [request_record ev q v]
            \<and> make_request ev s q v True True =
                make_request ev (after_expiry ev s1 q v) q v True False))
   \<and> shown ev (SIGN_IN ev) x = PStr ''**REDACTED**''
   \<and> shown ev (REFRESH_AUTH_TOKEN ev) x = PStr ''**REDACTED**''
   \<and> (q \<noteq> SIGN_IN ev \<and> q \<noteq> REFRESH_AUTH_TOKEN ev \<longrightarrow> shown ev q x = x)"
proof (intro conjI allI impI)
  show "LOGGER (snd (make_request ev s q v False r)) =
     LOGGER s @ diagnostics ev q v (fst (make_request ev s q v False r))"
    using transmit_log [of ev s q v "[]"]
    by (auto simp: make_request_noauth diagnostics_def)
next
  fix b s1 assume ca: "check_auth ev s = (Inr b, s1)"
  show "LOGGER (snd (make_request ev s q v True False)) =
           LOGGER s1 @ diagnostics ev q v (fst (make_request ev s q v True False))"
    using transmit_log [of ev s1 q v "headers s1"] ca
    by (auto simp: make_request_last diagnostics_def)
  show "make_request ev s q v True True = make_request ev s q v True False
          \<or> LOGGER (after_expiry ev s1 q v) = LOGGER s1 @ [request_record ev q v]
            \<and> make_request ev s q v True True =
                make_request ev (after_expiry ev s1 q v) q v True False"
  proof (cases "transmit ev s1 q v (headers s1)")
    case (Expired s4)
    have "s4 = after_expiry ev s1 q v"
      using transmit_cases [of ev s1 q v "headers s1"] Expired by (auto simp: after_expiry_def)
    then show ?thesis
      using Expired ca by (simp add: make_request_first after_expiry_def sending_log)
  next
    case (Finished x)
    then show ?thesis using ca by (simp add: make_request_first make_request_last)
  qed
qed (simp_all add: shown_def)



theorem make_request_redacts_witness:
  "check_auth (sample_env [me_body]) logged_in = (Inr True, logged_in)
   \<and> ''query Me'' \<noteq> SIGN_IN (sample_env [me_body])
   \<and> ''query Me'' \<noteq> REFRESH_AUTH_TOKEN (sample_env [me_body])
   \<and> map args (LOGGER (snd (make_request (sample_env [me_body]) logged_in ''query Me''
                               (PDict [(''first'', PInt 20)]) True False)))
       = [[ArgStr ''query Me'', ArgVal (PDict [(''first'', PInt 20)])],
          [ArgVal (PDict [(''me'', PDict [(''name'', PStr ''u'')])])]]
   \<and> map args (LOGGER (snd (make_request (sample_env [signin_body]) (init ''u@x.com'' ''pw'')
                               (SIGN_IN (sample_env [signin_body])) credentials False True)))
       = [[ArgStr ''mutation SignIn'', ArgVal (PStr ''**REDACTED**'')],
          [ArgVal (PStr ''**REDACTED**'')]]"
  using make_request_redacts
          [of "sample_env [me_body]" logged_in "''query Me''" "PDict [(''first'', PInt 20)]" True
              "PDict [(''first'', PInt 20)]"]
        make_request_redacts
          [of "sample_env [signin_body]" "init ''u@x.com'' ''pw''" "''mutation SignIn''"
              credentials True credentials]
  by (simp add: run_simps me_body_def signin_body_def credentials_def diagnostics_def
      request_record_def response_record_def shown_def)

section \<open>Finishing a postcard\<close>

lemma attempts_0_iff: "attempts rs = 0 \<longleftrightarrow> (\<forall>x \<in> set rs. rheaders x = [])"
  by (auto simp: attempts_def filter_empty_conv)

text \<open>A call that returns data has executed its request last, and the data are the
  \<open>data\<close> of the body the executor answered with.\<close>

lemma transmit_returns:
  assumes "transmit ev s q v h = Finished (Inr d, s')"
  shows "graphql s' = graphql s @ [\<lparr>rquery = q, rvariables = v, rheaders = h\<rparr>]
       \<and> (\<exists>response. execute_async ev (graphql s) \<lparr>rquery = q, rvariables = v, rheaders = h\<rparr>
                          = Inr response
                      \<and> get response ''data'' PNone = Inr d)"
  using transmit_cases [of ev s q v h] assms transmit_graphql [of ev s q v h]
  by auto

lemma last_attempt_returns:
  assumes "make_request ev s q v True False = (Inr d, s')"
  shows "\<exists>hist h response.
           graphql s' = hist @ [\<lparr>rquery = q, rvariables = v, rheaders = h\<rparr>]
         \<and> execute_async ev hist \<lparr>rquery = q, rvariables = v, rheaders = h\<rparr> = Inr response
         \<and> get response ''data'' PNone = Inr d"
proof (cases "check_auth ev s")
  case (Pair r s1)
  with assms obtain b where b: "r = Inr b"
    by (cases r) (auto simp: make_request_last)
  with Pair assms have "transmit ev s1 q v (headers s1) = Finished (Inr d, s')"
    by (cases "transmit ev s1 q v (headers s1)") (auto simp: make_request_last)
  from transmit_returns [OF this] show ?thesis by blast
qed

lemma first_attempt_returns:
  assumes "make_request ev s q v True True = (Inr d, s')"
  shows "\<exists>hist h response.
           graphql s' = hist @ [\<lparr>rquery = q, rvariables = v, rheaders = h\<rparr>]
         \<and> execute_async ev hist \<lparr>rquery = q, rvariables = v, rheaders = h\<rparr> = Inr response
         \<and> get response ''data'' PNone = Inr d"
proof (cases "check_auth ev s")
  case (Pair r s1)
  with assms obtain b where b: "r = Inr b"
    by (cases r) (auto simp: make_request_first)
  show ?thesis
  proof (cases "transmit ev s1 q v (headers s1)")
    case (Expired s4)
    with Pair b assms have "make_request ev s4 q v True False = (Inr d, s')"
      by (simp add: make_request_first)
    then show ?thesis by (rule last_attempt_returns)
  next
    case (Finished x)
    with Pair b assms have "transmit ev s1 q v (headers s1) = Finished (Inr d, s')"
      by (simp add: make_request_first)
    from transmit_returns [OF this] show ?thesis by blast
  qed
qed

text \<open>Every attempt of an authenticated call sends the query and the variables of the
  call.\<close>

lemma last_attempt_sends:
  "\<exists>rs. graphql (snd (make_request ev s q v True False)) = graphql s @ rs
      \<and> (\<forall>x \<in> set rs. rheaders x \<noteq> [] \<longrightarrow> rquery x = q \<and> rvariables x = v)"
proof (cases "check_auth ev s")
  case (Pair r s1)
  obtain rs where rs: "graphql s1 = graphql s @ rs" "\<forall>x \<in> set rs. rheaders x = []"
    using check_auth_unauthenticated [of s ev] Pair
    by (auto simp: unauthenticated_traffic_def attempts_0_iff)
  show ?thesis
  proof (cases r)
    case (Inl e)
    with Pair rs show ?thesis by (auto simp: make_request_last)
  next
    case (Inr b)
    have "snd (make_request ev s q v True False) = outcome_state (transmit ev s1 q v (headers s1))"
      using Pair Inr by (simp add: make_request_last split: outcome.split)
    then have "graphql (snd (make_request ev s q v True False)) =
                 graphql s @ (rs @ [\<lparr>rquery = q, rvariables = v, rheaders = headers s1\<rparr>])"
      by (simp add: transmit_graphql rs)
    moreover have "\<forall>x \<in> set (rs @ [\<lparr>rquery = q, rvariables = v, rheaders = headers s1\<rparr>]).
                     rheaders x \<noteq> [] \<longrightarrow> rquery x = q \<and> rvariables x = v"
      using rs by auto
    ultimately show ?thesis by blast
  qed
qed

lemma first_attempt_sends:
  "\<exists>rs. graphql (snd (make_request ev s q v True True)) = graphql s @ rs
      \<and> (\<forall>x \<in> set rs. rheaders x \<noteq> [] \<longrightarrow> rquery x = q \<and> rvariables x = v)"
proof (cases "check_auth ev s")
  case (Pair r s1)
  obtain rs where rs: "graphql s1 = graphql s @ rs" "\<forall>x \<in> set rs. rheaders x = []"
    using check_auth_unauthenticated [of s ev] Pair
    by (auto simp: unauthenticated_traffic_def attempts_0_iff)
  show ?thesis
  proof (cases r)
    case (Inl e)
    with Pair rs show ?thesis by (auto simp: make_request_first)
  next
    case (Inr b)
    define req where "req = \<lparr>rquery = q, rvariables = v, rheaders = headers s1\<rparr>"
    have sent: "graphql (outcome_state (transmit ev s1 q v (headers s1))) = graphql s @ (rs @ [req])"
      by (simp add: transmit_graphql rs req_def)
    have ok: "\<forall>x \<in> set (rs @ [req]). rheaders x \<noteq> [] \<longrightarrow> rquery x = q \<and> rvariables x = v"
      using rs by (auto simp: req_def)
    show ?thesis
    proof (cases "transmit ev s1 q v (headers s1)")
      case (Expired s4)
      obtain rs' where rs': "graphql (snd (make_request ev s4 q v True False)) = graphql s4 @ rs'"
          "\<forall>x \<in> set rs'. rheaders x \<noteq> [] \<longrightarrow> rquery x = q \<and> rvariables x = v"
        using last_attempt_sends by blast
      have "graphql s4 = graphql s @ (rs @ [req])" using sent Expired by simp
      then have "graphql (snd (make_request ev s q v True True)) = graphql s @ ((rs @ [req]) @ rs')"
        using Pair Inr Expired rs' by (simp add: make_request_first)
      moreover have "\<forall>x \<in> set ((rs @ [req]) @ rs'). rheaders x \<noteq> [] \<longrightarrow> rquery x = q \<and> rvariables x = v"
        using ok rs'(2) by auto
      ultimately show ?thesis by blast
    next
      case (Finished x)
      then have "graphql (snd (make_request ev s q v True True)) = graphql s @ (rs @ [req])"
        using Pair Inr sent by (simp add: make_request_first)
      with ok show ?thesis by blast
    qed
  qed
qed

text \<open>What a call for a recognized report sends, and what it returns when it returns.\<close>

lemma recognized_traffic:
  assumes "finishing_strategy (report ps) = RECOGNIZED"
  shows "getitem (finish_variables fid (report ps)) ''sightingReportPostcardFinishInput'' =
           Inr (PDict [(''feedItemId'', PStr fid),
                       (''defaultCoverMedia'',
                          PList (map cover_media (filter is_unlocked (sightings (report ps))))),
                       (''notSelectedMediaIds'', PList []),
                       (''reportToken'', token (report ps))])
       \<and> (\<exists>rs. graphql (snd (finish_postcard ev s fid (IsPostcardSighting ps))) = graphql s @ rs
              \<and> (\<forall>x \<in> set rs. rheaders x \<noteq> [] \<longrightarrow>
                     rquery x = FINISH_SIGHTING ev
                   \<and> rvariables x = finish_variables fid (report ps)))
       \<and> (\<forall>b. fst (finish_postcard ev s fid (IsPostcardSighting ps)) = Inr b \<longrightarrow>
              (\<exists>hist h response data fin ok.
                  graphql (snd (finish_postcard ev s fid (IsPostcardSighting ps))) =
                    hist @ [\<lparr>rquery = FINISH_SIGHTING ev,
                              rvariables = finish_variables fid (report ps), rheaders = h\<rparr>]
                \<and> execute_async ev hist
                     \<lparr>rquery = FINISH_SIGHTING ev,
                      rvariables = finish_variables fid (report ps), rheaders = h\<rparr> = Inr response
                \<and> get response ''data'' PNone = Inr data
                \<and> getitem data ''sightingReportPostcardFinish'' = Inr fin
                \<and> getitem fin ''success'' = Inr ok
                \<and> b = truthy ok))"
proof (intro conjI allI impI)
  show "getitem (finish_variables fid (report ps)) ''sightingReportPostcardFinishInput'' =
           Inr (PDict [(''feedItemId'', PStr fid),
                       (''defaultCoverMedia'',
                          PList (map cover_media (filter is_unlocked (sightings (report ps))))),
                       (''notSelectedMediaIds'', PList []),
                       (''reportToken'', token (report ps))])"
    by (simp add: finish_variables_def)
next
  define call where
    "call = make_request ev s (FINISH_SIGHTING ev) (finish_variables fid (report ps)) True True"
  have state: "snd (finish_postcard ev s fid (IsPostcardSighting ps)) = snd call"
    using assms by (simp add: finish_postcard_def call_def Let_def split: prod.split sum.split)
  show "\<exists>rs. graphql (snd (finish_postcard ev s fid (IsPostcardSighting ps))) = graphql s @ rs
              \<and> (\<forall>x \<in> set rs. rheaders x \<noteq> [] \<longrightarrow>
                     rquery x = FINISH_SIGHTING ev
                   \<and> rvariables x = finish_variables fid (report ps))"
    unfolding state call_def by (rule first_attempt_sends)
  fix b assume b: "fst (finish_postcard ev s fid (IsPostcardSighting ps)) = Inr b"
  obtain r s' where rs: "call = (r, s')" by (cases call)
  from b rs assms obtain d where d: "r = Inr d"
    by (cases r) (auto simp: finish_postcard_def call_def Let_def)
  from b rs d assms obtain fin ok where fin:
      "getitem d ''sightingReportPostcardFinish'' = Inr fin" "getitem fin ''success'' = Inr ok"
      "b = truthy ok"
    by (auto simp: finish_postcard_def call_def Let_def split: sum.splits)
  from first_attempt_returns [of ev s "FINISH_SIGHTING ev" "finish_variables fid (report ps)" d s']
  obtain hist h response where
      "graphql s' = hist @ [\<lparr>rquery = FINISH_SIGHTING ev,
                              rvariables = finish_variables fid (report ps), rheaders = h\<rparr>]"
      "execute_async ev hist \<lparr>rquery = FINISH_SIGHTING ev,
                      rvariables = finish_variables fid (report ps), rheaders = h\<rparr> = Inr response"
      "get response ''data'' PNone = Inr d"
    using rs d unfolding call_def by blast
  with fin state rs
  show "\<exists>hist h response data fin ok.
                  graphql (snd (finish_postcard ev s fid (IsPostcardSighting ps))) =
                    hist @ [\<lparr>rquery = FINISH_SIGHTING ev,
                              rvariables = finish_variables fid (report ps), rheaders = h\<rparr>]
                \<and> execute_async ev hist
                     \<lparr>rquery = FINISH_SIGHTING ev,
                      rvariables = finish_variables fid (report ps), rheaders = h\<rparr> = Inr response
                \<and> get response ''data'' PNone = Inr data
                \<and> getitem data ''sightingReportPostcardFinish'' = Inr fin
                \<and> getitem fin ''success'' = Inr ok
                \<and> b = truthy ok"
    by auto
qed


text \<open>A client that holds both tokens needs no authentication request.\<close>

lemma check_auth_active:
  assumes "\<not> needs_login s" and "\<not> needs_refresh s"
  shows "check_auth ev s = (Inr True, s)"
  using assms by (simp add: check_auth.simps)

text \<open>A body that passes the checks of the pipeline ends the transmission with its
  data.\<close>

lemma transmit_answers:
  assumes "execute_async ev (graphql s) \<lparr>rquery = q, rvariables = v, rheaders = h\<rparr> = Inr response"
    and "answers_with ev response d"
  shows "\<exists>s'. transmit ev s q v h = Finished (Inr d, s')"
proof -
  have "\<not> reports_expiry ev response"
    using assms(2) by (auto simp: answers_with_def reports_expiry_def split: sum.splits)
  moreover have "\<not> (\<exists>e. transmit ev s q v h = Finished (Inl e, sending ev s q v h))"
    using assms by (simp add: transmit_def answers_with_def Let_def split: sum.splits)
  ultimately show ?thesis
    using transmit_cases [of ev s q v h] assms(1,2)
    by (auto simp: answers_with_def)
qed

text \<open>After a successful authentication the request of the call is executed next, with
  the \<open>Authorization\<close> header; the call returns the data of a body that passes the
  checks.\<close>

lemma first_attempt_submits:
  assumes "check_auth ev s = (Inr b, s1)"
  shows "\<exists>rest. graphql (snd (make_request ev s q v True True)) =
                  graphql s1 @ request_with_auth s1 q v # rest"
proof (cases "transmit ev s1 q v (headers s1)")
  case (Expired s4)
  have "graphql s4 = graphql s1 @ [request_with_auth s1 q v]"
    using transmit_graphql [of ev s1 q v "headers s1"] Expired
    by (simp add: request_with_auth_def)
  moreover obtain rs where "graphql (snd (make_request ev s4 q v True False)) = graphql s4 @ rs"
    using last_attempt_traffic by blast
  ultimately show ?thesis
    using assms Expired by (simp add: make_request_first)
next
  case (Finished x)
  have "graphql (snd x) = graphql s1 @ [request_with_auth s1 q v]"
    using transmit_graphql [of ev s1 q v "headers s1"] Finished
    by (simp add: request_with_auth_def)
  then show ?thesis
    using assms Finished by (simp add: make_request_first)
qed

lemma first_attempt_answers:
  assumes "check_auth ev s = (Inr b, s1)"
    and "execute_async ev (graphql s1) (request_with_auth s1 q v) = Inr response"
    and "answers_with ev response d"
  shows "fst (make_request ev s q v True True) = Inr d"
proof -
  obtain s' where "transmit ev s1 q v (headers s1) = Finished (Inr d, s')"
    using transmit_answers [of ev s1 q v "headers s1" response d] assms(2,3)
    by (auto simp: request_with_auth_def)
  with assms(1) show ?thesis by (simp add: make_request_first)
qed

lemma first_attempt_unauthenticated:
  assumes "check_auth ev s = (Inl e, s1)"
  shows "make_request ev s q v True True = (Inl e, s1)"
  using assms by (simp add: make_request_first)

text \<open>
  C4. For a report whose finishing strategy is \<open>RECOGNIZED\<close>, the input of the finish
  mutation is the given feed item id, as \<open>defaultCoverMedia\<close> the cover media of the
  unlocked sightings in the order of the report, an empty \<open>notSelectedMediaIds\<close> and
  the token of the report. Every authenticated request the call executes is the finish
  mutation with these variables. When the call returns, the finish mutation is the last
  request executed, and the value returned is the truth value of \<open>success\<close> in the body
  the remote answered it with. The mutation is submitted: a client that holds both
  tokens is authenticated without a request; when authentication fails its exception is
  the result; and when it succeeds the finish mutation is the next request executed,
  with the \<open>Authorization\<close> header, and if the remote answers it with a body that
  passes the checks of the pipeline the call returns the truth value of its \<open>success\<close>.
\<close>

theorem finish_postcard_recognized:
  assumes "finishing_strategy (report ps) = RECOGNIZED"
  shows "getitem (finish_variables fid (report ps)) ''sightingReportPostcardFinishInput'' =
           Inr (PDict [(''feedItemId'', PStr fid),
                       (''defaultCoverMedia'',
                          PList (map cover_media (filter is_unlocked (sightings (report ps))))),
                       (''notSelectedMediaIds'', PList []),
                       (''reportToken'', token (report ps))])
       \<and> (\<exists>rs. graphql (snd (finish_postcard ev s fid (IsPostcardSighting ps))) = graphql s @ rs
              \<and> (\<forall>x \<in> set rs. rheaders x \<noteq> [] \<longrightarrow>
                     rquery x = FINISH_SIGHTING ev
                   \<and> rvariables x = finish_variables fid (report ps)))
       \<and> (\<forall>b. fst (finish_postcard ev s fid (IsPostcardSighting ps)) = Inr b \<longrightarrow>
              (\<exists>hist h response data fin ok.
                  graphql (snd (finish_postcard ev s fid (IsPostcardSighting ps))) =
                    hist @ [\<lparr>rquery = FINISH_SIGHTING ev,
                              rvariables = finish_variables fid (report ps), rheaders = h\<rparr>]
                \<and> execute_async ev hist
                     \<lparr>rquery = FINISH_SIGHTING ev,
                      rvariables = finish_variables fid (report ps), rheaders = h\<rparr> = Inr response
                \<and> get response ''data'' PNone = Inr data
                \<and> getitem data ''sightingReportPostcardFinish'' = Inr fin
                \<and> getitem fin ''success'' = Inr ok
                \<and> b = truthy ok))
       \<and> (\<not> needs_login s \<and> \<not> needs_refresh s \<longrightarrow> check_auth ev s = (Inr True, s))
       \<and> (\<forall>e s1. check_auth ev s = (Inl e, s1) \<longrightarrow>
              finish_postcard ev s fid (IsPostcardSighting ps) = (Inl e, s1))
       \<and> (\<forall>b s1. check_auth ev s = (Inr b, s1) \<longrightarrow>
              (\<exists>rest. graphql (snd (finish_postcard ev s fid (IsPostcardSighting ps))) =
                        graphql s1
                        @ \<lparr>rquery = FINISH_SIGHTING ev,
                           rvariables = finish_variables fid (report ps),
                           rheaders = [(''Authorization'', Bearer (access_token s1))]\<rparr>
                        # rest)
            \<and> (\<forall>response data fin ok.
                    execute_async ev (graphql s1)
                      \<lparr>rquery = FINISH_SIGHTING ev,
                       rvariables = finish_variables fid (report ps),
                       rheaders = [(''Authorization'', Bearer (access_token s1))]\<rparr> = Inr response
                  \<and> answers_with ev response data
                  \<and> getitem data ''sightingReportPostcardFinish'' = Inr fin
                  \<and> getitem fin ''success'' = Inr ok \<longrightarrow>
                    fst (finish_postcard ev s fid (IsPostcardSighting ps)) = Inr (truthy ok)))"
proof -
  define q where "q = FINISH_SIGHTING ev"
  define v where "v = finish_variables fid (report ps)"
  define call where "call = make_request ev s q v True True"
  have state: "snd (finish_postcard ev s fid (IsPostcardSighting ps)) = snd call"
    using assms
    by (simp add: finish_postcard_def call_def q_def v_def Let_def split: prod.split sum.split)
  have req: "request_with_auth s1 q v =
               \<lparr>rquery = q, rvariables = v,
                rheaders = [(''Authorization'', Bearer (access_token s1))]\<rparr>" for s1
    by (simp add: request_with_auth_def headers_def)
  have old: "getitem (finish_variables fid (report ps)) ''sightingReportPostcardFinishInput'' =
           Inr (PDict [(''feedItemId'', PStr fid),
                       (''defaultCoverMedia'',
                          PList (map cover_media (filter is_unlocked (sightings (report ps))))),
                       (''notSelectedMediaIds'', PList []),
                       (''reportToken'', token (report ps))])
       \<and> (\<exists>rs. graphql (snd (finish_postcard ev s fid (IsPostcardSighting ps))) = graphql s @ rs
              \<and> (\<forall>x \<in> set rs. rheaders x \<noteq> [] \<longrightarrow>
                     rquery x = FINISH_SIGHTING ev
                   \<and> rvariables x = finish_variables fid (report ps)))
       \<and> (\<forall>b. fst (finish_postcard ev s fid (IsPostcardSighting ps)) = Inr b \<longrightarrow>
              (\<exists>hist h response data fin ok.
                  graphql (snd (finish_postcard ev s fid (IsPostcardSighting ps))) =
                    hist @ [\<lparr>rquery = FINISH_SIGHTING ev,
                              rvariables = finish_variables fid (report ps), rheaders = h\<rparr>]
                \<and> execute_async ev hist
                     \<lparr>rquery = FINISH_SIGHTING ev,
                      rvariables = finish_variables fid (report ps), rheaders = h\<rparr> = Inr response
                \<and> get response ''data'' PNone = Inr data
                \<and> getitem data ''sightingReportPostcardFinish'' = Inr fin
                \<and> getitem fin ''success'' = Inr ok
                \<and> b = truthy ok))"
    by (rule recognized_traffic [OF assms])
  have failed: "finish_postcard ev s fid (IsPostcardSighting ps) = (Inl e, s1)"
    if "check_auth ev s = (Inl e, s1)" for e s1
    using assms first_attempt_unauthenticated [OF that, of q v]
    by (simp add: finish_postcard_def q_def v_def Let_def)
  have submitted: "\<exists>rest. graphql (snd (finish_postcard ev s fid (IsPostcardSighting ps))) =
                        graphql s1
                        @ \<lparr>rquery = FINISH_SIGHTING ev,
                           rvariables = finish_variables fid (report ps),
                           rheaders = [(''Authorization'', Bearer (access_token s1))]\<rparr>
                        # rest"
    if "check_auth ev s = (Inr b, s1)" for b s1
    using first_attempt_submits [OF that, of q v] state
    by (simp add: call_def req) (simp add: q_def v_def)
  have answered: "fst (finish_postcard ev s fid (IsPostcardSighting ps)) = Inr (truthy ok)"
    if ca: "check_auth ev s = (Inr b, s1)"
      and ex: "execute_async ev (graphql s1)
                      \<lparr>rquery = FINISH_SIGHTING ev,
                       rvariables = finish_variables fid (report ps),
                       rheaders = [(''Authorization'', Bearer (access_token s1))]\<rparr> = Inr response"
      and aw: "answers_with ev response data"
      and fin: "getitem data ''sightingReportPostcardFinish'' = Inr fin"
      and ok: "getitem fin ''success'' = Inr ok"
    for b s1 response data fin ok
  proof -
    have "execute_async ev (graphql s1) (request_with_auth s1 q v) = Inr response"
      using ex by (simp add: req) (simp add: q_def v_def)
    from first_attempt_answers [OF ca this aw]
    have "fst call = Inr data" by (simp add: call_def)
    then obtain s' where "call = (Inr data, s')" by (cases call) simp
    then show ?thesis
      using assms fin ok
      by (simp add: finish_postcard_def call_def q_def v_def Let_def)
  qed
  have new: "(\<not> needs_login s \<and> \<not> needs_refresh s \<longrightarrow> check_auth ev s = (Inr True, s))
       \<and> (\<forall>e s1. check_auth ev s = (Inl e, s1) \<longrightarrow>
              finish_postcard ev s fid (IsPostcardSighting ps) = (Inl e, s1))
       \<and> (\<forall>b s1. check_auth ev s = (Inr b, s1) \<longrightarrow>
              (\<exists>rest. graphql (snd (finish_postcard ev s fid (IsPostcardSighting ps))) =
                        graphql s1
                        @ \<lparr>rquery = FINISH_SIGHTING ev,
                           rvariables = finish_variables fid (report ps),
                           rheaders = [(''Authorization'', Bearer (access_token s1))]\<rparr>
                        # rest)
            \<and> (\<forall>response data fin ok.
                    execute_async ev (graphql s1)
                      \<lparr>rquery = FINISH_SIGHTING ev,
                       rvariables = finish_variables fid (report ps),
                       rheaders = [(''Authorization'', Bearer (access_token s1))]\<rparr> = Inr response
                  \<and> answers_with ev response data
                  \<and> getitem data ''sightingReportPostcardFinish'' = Inr fin
                  \<and> getitem fin ''success'' = Inr ok \<longrightarrow>
                    fst (finish_postcard ev s fid (IsPostcardSighting ps)) = Inr (truthy ok)))"
  proof (intro conjI allI impI)
    show "check_auth ev s = (Inr True, s)" if "\<not> needs_login s \<and> \<not> needs_refresh s"
      using that by (simp add: check_auth_active)
    show "finish_postcard ev s fid (IsPostcardSighting ps) = (Inl e, s1)"
      if "check_auth ev s = (Inl e, s1)" for e s1
      using that by (rule failed)
    show "\<exists>rest. graphql (snd (finish_postcard ev s fid (IsPostcardSighting ps))) =
                        graphql s1
                        @ \<lparr>rquery = FINISH_SIGHTING ev,
                           rvariables = finish_variables fid (report ps),
                           rheaders = [(''Authorization'', Bearer (access_token s1))]\<rparr>
                        # rest"
      if "check_auth ev s = (Inr b, s1)" for b s1
      using that by (rule submitted)
    show "fst (finish_postcard ev s fid (IsPostcardSighting ps)) = Inr (truthy ok)"
      if "check_auth ev s = (Inr b, s1)"
        and "execute_async ev (graphql s1)
                      \<lparr>rquery = FINISH_SIGHTING ev,
                       rvariables = finish_variables fid (report ps),
                       rheaders = [(''Authorization'', Bearer (access_token s1))]\<rparr> = Inr response
                  \<and> answers_with ev response data
                  \<and> getitem data ''sightingReportPostcardFinish'' = Inr fin
                  \<and> getitem fin ''success'' = Inr ok"
      for b s1 response data fin ok
      using that answered [of b s1 response data fin ok] by simp
  qed
  show ?thesis
    apply (insert old new)
    apply (elim conjE)
    apply (intro conjI)
    apply assumption+
    done
qed


theorem finish_postcard_recognized_witness:
  "finishing_strategy (report recognized_sighting) = RECOGNIZED
   \<and> \<not> needs_login logged_in \<and> \<not> needs_refresh logged_in
   \<and> check_auth (sample_env [finished_body]) logged_in = (Inr True, logged_in)
   \<and> execute_async (sample_env [finished_body]) (graphql logged_in)
        \<lparr>rquery = FINISH_SIGHTING (sample_env [finished_body]),
         rvariables = finish_variables ''item-42'' (report recognized_sighting),
         rheaders = [(''Authorization'', Bearer (access_token logged_in))]\<rparr> = Inr finished_body
   \<and> answers_with (sample_env [finished_body]) finished_body
        (PDict [(''sightingReportPostcardFinish'', PDict [(''success'', PBool True)])])
   \<and> getitem (PDict [(''sightingReportPostcardFinish'', PDict [(''success'', PBool True)])])
        ''sightingReportPostcardFinish'' = Inr (PDict [(''success'', PBool True)])
   \<and> getitem (PDict [(''success'', PBool True)]) ''success'' = Inr (PBool True)
   \<and> fst (finish_postcard (sample_env [finished_body]) logged_in ''item-42''
            (IsPostcardSighting recognized_sighting)) = Inr True
   \<and> graphql (snd (finish_postcard (sample_env [finished_body]) logged_in ''item-42''
            (IsPostcardSighting recognized_sighting)))
       = [\<lparr>rquery = ''mutation FinishSighting'',
           rvariables =
             PDict [(''sightingReportPostcardFinishInput'',
                     PDict [(''feedItemId'', PStr ''item-42''),
                            (''defaultCoverMedia'', PList [PStr ''m1'']),
                            (''notSelectedMediaIds'', PList []),
                            (''reportToken'', PStr ''tok'')])],
           rheaders = [(''Authorization'', Bearer (PStr ''AT1''))]\<rparr>]
   \<and> fst (finish_postcard (sample_env [not_finished_body]) logged_in ''item-42''
            (IsPostcardSighting recognized_sighting)) = Inr False"
  using finish_postcard_recognized
          [of recognized_sighting "''item-42''" "sample_env [finished_body]" logged_in]
        finish_postcard_recognized
          [of recognized_sighting "''item-42''" "sample_env [not_finished_body]" logged_in]
  by (simp add: run_simps finish_postcard_def finish_variables_def recognized_sighting_def
      finished_body_def not_finished_body_def answers_with_def)

text \<open>The pipeline leaves the credentials, the collection cache and the feed watermark
  alone.\<close>

lemma local_steps_untouched: "local_steps untouched"
  unfolding local_steps_def untouched_def by simp

lemma transmit_untouched: "untouched s (outcome_state (transmit ev s q v h))"
  using transmit_cases [of ev s q v h]
  by (auto simp: untouched_def sending_def log_def)

lemma make_request_untouched: "untouched s (snd (make_request ev s q v auth reauth))"
  by (rule make_request_rel [OF local_steps_untouched]) (rule transmit_untouched)

section \<open>Collections\<close>

lemma capitalize_bird: "capitalize ''bird'' = ''Bird''"
  by code_simp

lemma cache_values_set:
  "cache_values (cache_set d k v) \<subseteq> insert v (cache_values d)"
  by (induction d) (force simp: cache_values_def split: if_splits)+

lemma cache_values_update:
  "cache_values (cache_update d new) \<subseteq> cache_values d \<union> cache_values new"
proof (induction new arbitrary: d)
  case Nil
  then show ?case by simp
next
  case (Cons kv new)
  obtain k v where kv: "kv = (k, v)" by (cases kv)
  have "cache_values (cache_update (cache_set d k v) new)
          \<subseteq> cache_values (cache_set d k v) \<union> cache_values new"
    by (rule Cons.IH)
  also have "\<dots> \<subseteq> insert v (cache_values d) \<union> cache_values new"
    using cache_values_set [of d k v] by auto
  finally show ?case by (auto simp: kv cache_values_def)
qed

lemma collect_tagged:
  assumes "collect tn ds acc = Inr new"
  shows "\<forall>c \<in> cache_values new. c \<in> cache_values acc \<or> collection_typename c = Inr (PStr tn)"
  using assms
proof (induction ds arbitrary: acc)
  case Nil
  then show ?case by simp
next
  case (Cons d ds)
  show ?case
  proof (cases "getitem d ''__typename'' = Inr (PStr tn)")
    case True
    with Cons.prems obtain i where i: "getitem d ''id'' = Inr i" "hashable i"
        and rest: "collect tn ds (cache_set acc i (Collection d)) = Inr new"
      by (auto split: sum.splits if_splits)
    from Cons.IH [OF rest] cache_values_set [of acc i "Collection d"] True
    show ?thesis by auto
  next
    case False
    with Cons.prems have "collect tn ds acc = Inr new"
      by (auto split: sum.splits if_splits)
    from Cons.IH [OF this] show ?thesis .
  qed
qed

lemma capitalize_plant: "capitalize ''plant'' = ''Plant''"
  by code_simp

text \<open>
  C7, as amended. When \<open>refresh_collections("bird")\<close> returns, it returns the whole
  collection cache as the call leaves it, and every entity in it either was in the cache
  before the call or has the type tag \<open>CollectionBird\<close>: of the incoming records only
  those tagged \<open>CollectionBird\<close> are merged, and what the cache held stays.
\<close>

theorem refresh_collections_bird:
  assumes "fst (refresh_collections ev s ''bird'') = Inr result"
  shows "result = collections (snd (refresh_collections ev s ''bird''))
       \<and> (\<forall>c \<in> cache_values result.
             c \<in> cache_values (collections s)
           \<or> collection_typename c = Inr (PStr ''CollectionBird''))"
proof -
  obtain r s1 where call: "make_request ev s (COLLECTIONS_query ev) PNone True True = (r, s1)"
    by (cases "make_request ev s (COLLECTIONS_query ev) PNone True True")
  have same: "collections s1 = collections s"
    using make_request_untouched [of s ev "COLLECTIONS_query ev" PNone True True] call
    by (simp add: untouched_def)
  from assms call have
    "\<exists>ds new. collect ''CollectionBird'' ds [] = Inr new
       \<and> result = cache_update (collections s1) new
       \<and> snd (refresh_collections ev s ''bird'') = s1\<lparr>collections := result\<rparr>"
    by (auto simp: refresh_collections_def capitalize_bird Let_def simp del: capitalize.simps
        split: sum.splits) blast
  then obtain ds new where new: "collect ''CollectionBird'' ds [] = Inr new"
      and res: "result = cache_update (collections s1) new"
               "snd (refresh_collections ev s ''bird'') = s1\<lparr>collections := result\<rparr>"
    by blast
  have "\<forall>c \<in> cache_values new. collection_typename c = Inr (PStr ''CollectionBird'')"
    using collect_tagged [OF new] by (simp add: cache_values_def)
  then show ?thesis
    using cache_values_update [of "collections s1" new] res same by auto
qed

theorem refresh_collections_bird_witness:
  "fst (refresh_collections (sample_env [collections_body]) logged_in ''bird'')
     = Inr [(PStr ''c2'',
             Collection (PDict [(''id'', PStr ''c2''), (''__typename'', PStr ''CollectionBird'')]))]
   \<and> collections (snd (refresh_collections (sample_env [collections_body]) logged_in ''bird''))
     = [(PStr ''c2'',
         Collection (PDict [(''id'', PStr ''c2''), (''__typename'', PStr ''CollectionBird'')]))]"
  using refresh_collections_bird
    [of "sample_env [collections_body]" logged_in
        "[(PStr ''c2'',
           Collection (PDict [(''id'', PStr ''c2''), (''__typename'', PStr ''CollectionBird'')]))]"]
  by (simp add: run_simps refresh_collections_def collections_body_def capitalize_bird
      del: capitalize.simps)

text \<open>
  C7 as stated fails: the returned mapping is the cache, not the filtered records. After
  a call with the type filter \<open>plant\<close>, a call with the filter \<open>bird\<close> returns the
  plant collection too.
\<close>

theorem refresh_collections_bird_counterexample:
  "fst (refresh_collections (sample_env [collections_body, collections_body])
          (snd (refresh_collections (sample_env [collections_body, collections_body])
                  logged_in ''plant''))
          ''bird'')
     = Inr [(PStr ''c1'',
             Collection (PDict [(''id'', PStr ''c1''), (''__typename'', PStr ''CollectionPlant'')])),
            (PStr ''c2'',
             Collection (PDict [(''id'', PStr ''c2''), (''__typename'', PStr ''CollectionBird'')]))]
   \<and> collection_typename
        (Collection (PDict [(''id'', PStr ''c1''), (''__typename'', PStr ''CollectionPlant'')]))
     = Inr (PStr ''CollectionPlant'')
   \<and> PStr ''CollectionPlant'' \<noteq> PStr ''CollectionBird''"
  by (simp add: run_simps refresh_collections_def collections_body_def capitalize_bird
      capitalize_plant del: capitalize.simps)

section \<open>The feed watermark\<close>

lemma feed_untouched: "untouched s (snd (feed ev s first after last_n before))"
proof -
  define v where "v = (if truthy after then PDict [(''first'', first), (''after'', after)]
                       else PDict [(''first'', first)])"
  have "untouched s (snd (make_request ev s (FEED_query ev) v True True))"
    by (rule make_request_untouched)
  moreover have "snd (feed ev s first after last_n before)
                   = snd (make_request ev s (FEED_query ev) v True True)"
    unfolding feed_def Let_def v_def [symmetric]
    by (simp split: prod.split sum.split)
  ultimately show ?thesis by simp
qed

lemma refresh_feed_unfold:
  "refresh_feed ev s since =
     (case since_value ev s since of
        Inl e \<Rightarrow> (Inl e, s)
      | Inr since2 \<Rightarrow>
          (case feed ev s (PInt 20) PNone PNone PNone of
             (Inl e, s1) \<Rightarrow> (Inl e, s1)
           | (Inr fd, s1) \<Rightarrow>
               (case newest_created_at ev fd of
                  Inl e \<Rightarrow> (Inl e, s1)
                | Inr newest_date \<Rightarrow>
                    (case feed_filter ev fd None since2 of
                       Inl e \<Rightarrow>
                         (Inl e,
                          if Some newest_date \<noteq> last_feed_date s1
                          then (log DEBUG ''Updating latest seen Feed timestamp: %s -> %s''
                                  [ArgDate (last_feed_date s1), ArgDate (Some newest_date)] s1)
                                 \<lparr>last_feed_date := Some newest_date\<rparr>
                          else s1)
                     | Inr ns \<Rightarrow>
                         (Inr ns,
                          if Some newest_date \<noteq> last_feed_date s1
                          then (log DEBUG ''Updating latest seen Feed timestamp: %s -> %s''
                                  [ArgDate (last_feed_date s1), ArgDate (Some newest_date)] s1)
                                 \<lparr>last_feed_date := Some newest_date\<rparr>
                          else s1)))))"
  unfolding refresh_feed_def since_value_def Let_def
  by (rule refl)

text \<open>
  C2, as amended. The watermark is unset at construction. A call of \<open>refresh_feed\<close>
  leaves the watermark as it was or sets it to the timestamp of the newest node of the
  page it fetched, and when the call returns the watermark is that timestamp. So the
  watermark after the call is not earlier than before provided the newest node of the
  fetched page is not older than the watermark.
\<close>

theorem refresh_feed_watermark:
  "last_feed_date (init e p) = None
   \<and> (last_feed_date (snd (refresh_feed ev s since)) = last_feed_date s
      \<or> (\<exists>fd s1 t. feed ev s (PInt 20) PNone PNone PNone = (Inr fd, s1)
            \<and> newest_created_at ev fd = Inr t
            \<and> last_feed_date (snd (refresh_feed ev s since)) = Some t))
   \<and> (\<forall>ns. fst (refresh_feed ev s since) = Inr ns \<longrightarrow>
         (\<exists>fd s1 t. feed ev s (PInt 20) PNone PNone PNone = (Inr fd, s1)
            \<and> newest_created_at ev fd = Inr t
            \<and> last_feed_date (snd (refresh_feed ev s since)) = Some t))
   \<and> ((\<forall>fd s1 t. feed ev s (PInt 20) PNone PNone PNone = (Inr fd, s1)
            \<and> newest_created_at ev fd = Inr t \<longrightarrow> not_earlier (Some t) (last_feed_date s))
       \<longrightarrow> not_earlier (last_feed_date (snd (refresh_feed ev s since))) (last_feed_date s))"
proof -
  obtain r s1 where fd: "feed ev s (PInt 20) PNone PNone PNone = (r, s1)"
    by (cases "feed ev s (PInt 20) PNone PNone PNone")
  have same: "last_feed_date s1 = last_feed_date s"
    using feed_untouched [of s ev "PInt 20" PNone PNone PNone] fd by (simp add: untouched_def)
  have refl: "not_earlier x x" for x
    by (simp add: not_earlier_def split: option.split)
  have C: "(\<exists>e. fst (refresh_feed ev s since) = Inl e
              \<and> last_feed_date (snd (refresh_feed ev s since)) = last_feed_date s)
      \<or> (\<exists>f t. r = Inr f \<and> newest_created_at ev f = Inr t
            \<and> last_feed_date (snd (refresh_feed ev s since)) = Some t)"
  proof (cases "since_value ev s since")
    case (Inl e)
    then show ?thesis by (simp add: refresh_feed_unfold)
  next
    case since2: (Inr since2)
    show ?thesis
    proof (cases r)
      case (Inl e)
      with since2 fd same show ?thesis by (simp add: refresh_feed_unfold)
    next
      case f: (Inr f)
      show ?thesis
      proof (cases "newest_created_at ev f")
        case (Inl e)
        with since2 fd f same show ?thesis by (simp add: refresh_feed_unfold)
      next
        case t: (Inr t)
        have "last_feed_date (snd (refresh_feed ev s since)) = Some t"
          using since2 fd f t
          by (cases "feed_filter ev f None since2") (simp_all add: refresh_feed_unfold log_def)
        with f t show ?thesis by simp
      qed
    qed
  qed
  then have A: "last_feed_date (snd (refresh_feed ev s since)) = last_feed_date s
      \<or> (\<exists>f t. r = Inr f \<and> newest_created_at ev f = Inr t
            \<and> last_feed_date (snd (refresh_feed ev s since)) = Some t)"
    by blast
  have B: "\<exists>f t. r = Inr f \<and> newest_created_at ev f = Inr t
            \<and> last_feed_date (snd (refresh_feed ev s since)) = Some t"
    if "fst (refresh_feed ev s since) = Inr ns" for ns
    using C that by auto
  show ?thesis
  proof (intro conjI allI impI)
    show "last_feed_date (init e p) = None" by (simp add: init_def)
    show "last_feed_date (snd (refresh_feed ev s since)) = last_feed_date s
      \<or> (\<exists>fd s1 t. feed ev s (PInt 20) PNone PNone PNone = (Inr fd, s1)
            \<and> newest_created_at ev fd = Inr t
            \<and> last_feed_date (snd (refresh_feed ev s since)) = Some t)"
      using A fd by auto
    show "\<exists>fd s1 t. feed ev s (PInt 20) PNone PNone PNone = (Inr fd, s1)
            \<and> newest_created_at ev fd = Inr t
            \<and> last_feed_date (snd (refresh_feed ev s since)) = Some t"
      if "fst (refresh_feed ev s since) = Inr ns" for ns
      using B [OF that] fd by auto
    show "not_earlier (last_feed_date (snd (refresh_feed ev s since))) (last_feed_date s)"
      if "\<forall>fd s1 t. feed ev s (PInt 20) PNone PNone PNone = (Inr fd, s1)
            \<and> newest_created_at ev fd = Inr t \<longrightarrow> not_earlier (Some t) (last_feed_date s)"
      using A that fd refl by auto
  qed
qed

theorem refresh_feed_watermark_witness:
  "last_feed_date (init ''u@x.com'' ''pw'') = None
   \<and> fst (refresh_feed (sample_env [feed_body ''11111'']) logged_in NO_VALUE)
       = Inr [FeedNode (PDict [(''id'', PStr ''n1''), (''__typename'', PStr ''NewPostcard''),
                               (''createdAt'', PStr ''11111'')])]
   \<and> last_feed_date (snd (refresh_feed (sample_env [feed_body ''11111'']) logged_in NO_VALUE)) = Some 5
   \<and> not_earlier (Some 5) (last_feed_date logged_in)"
  using refresh_feed_watermark
    [of "''u@x.com''" "''pw''" "sample_env [feed_body ''11111'']" logged_in NO_VALUE]
  by (simp add: run_simps refresh_feed_unfold since_value_def feed_def feed_body_def newest_created_at_def
      feed_filter_def not_earlier_def)

text \<open>
  C2 as stated fails: the watermark is replaced whenever the newest timestamp of the
  page differs from it, also by an earlier one. After a page whose newest node is of
  time 5, a page whose newest node is of time 3 moves the watermark back to 3.
\<close>

theorem refresh_feed_watermark_counterexample:
  "last_feed_date (snd (refresh_feed (sample_env [feed_body ''11111'', feed_body ''111'']) logged_in NO_VALUE))
     = Some 5
   \<and> last_feed_date
       (snd (refresh_feed (sample_env [feed_body ''11111'', feed_body ''111''])
               (snd (refresh_feed (sample_env [feed_body ''11111'', feed_body ''111'']) logged_in NO_VALUE))
               NO_VALUE))
     = Some 3
   \<and> \<not> not_earlier (Some 3) (Some 5)"
  by (simp add: run_simps refresh_feed_unfold since_value_def feed_def feed_body_def newest_created_at_def
      feed_filter_def not_earlier_def)

section \<open>The session invariant\<close>

lemma transmit_tokens:
  "refresh_token (outcome_state (transmit ev s q v h)) = refresh_token s
   \<and> (access_token (outcome_state (transmit ev s q v h)) = access_token s
      \<or> access_token (outcome_state (transmit ev s q v h)) = PNone)"
  using transmit_cases [of ev s q v h]
  by (auto simp: sending_def log_def)

lemma noauth_tokens:
  "refresh_token (snd (make_request ev s q v False r)) = refresh_token s
   \<and> (access_token (snd (make_request ev s q v False r)) = access_token s
      \<or> access_token (snd (make_request ev s q v False r)) = PNone)"
  unfolding noauth_state by (rule transmit_tokens)

lemma noauth_data_ok:
  assumes "remote_ok ev" and "make_request ev s q v False r = (Inr d, s')"
  shows "data_ok d"
proof -
  from assms(2) have "transmit ev s q v [] = Finished (Inr d, s')"
    by (cases "transmit ev s q v []") (auto simp: make_request_noauth)
  from transmit_returns [OF this] obtain response where
    "execute_async ev (graphql s) \<lparr>rquery = q, rvariables = v, rheaders = []\<rparr> = Inr response"
    "get response ''data'' PNone = Inr d"
    by blast
  with assms(1) show ?thesis unfolding remote_ok_def by blast
qed

lemma save_me_tokens:
  "access_token (snd (save_me ev s m)) = access_token s
   \<and> refresh_token (snd (save_me ev s m)) = refresh_token s"
proof -
  obtain c x f where "snd (save_me ev s m) = s\<lparr>clock := c, me := x, feeders := f\<rparr>"
    using save_me_frame by blast
  then show ?thesis by simp
qed

lemma login_session_ok:
  assumes ok: "remote_ok ev" and s: "session_ok s"
  shows "session_ok (snd (login ev s))"
proof (cases "email s = [] \<or> password s = []")
  case True
  then show ?thesis using s by (simp add: login.simps)
next
  case False
  define vars where "vars = PDict [(''emailSignInInput'',
      PDict [(''email'', PStr (email s)), (''password'', PStr (password s))])]"
  obtain r s' where call: "make_request ev s (SIGN_IN ev) vars False True = (r, s')"
    by (cases "make_request ev s (SIGN_IN ev) vars False True")
  have tok: "refresh_token s' = refresh_token s"
            "access_token s' = access_token s \<or> access_token s' = PNone"
    using noauth_tokens [of ev s "SIGN_IN ev" vars True] call by simp_all
  then have s': "session_ok s'" using s by (auto simp: session_ok_def)
  show ?thesis
  proof (cases r)
    case (Inl err)
    with False call s' show ?thesis
      by (simp add: login.simps vars_def [symmetric] Let_def log_def session_ok_def)
  next
    case data: (Inr data)
    have dok: "data_ok data" using noauth_data_ok [OF ok] call data by simp
    show ?thesis
    proof (cases "getitem data ''authEmailSignIn''")
      case (Inl e)
      with False call data s' show ?thesis
        by (simp add: login.simps vars_def [symmetric] Let_def)
    next
      case res: (Inr result)
      have pok: "tokens_ok result" using dok res by (simp add: data_ok_def)
      show ?thesis
      proof (cases "getitem result ''accessToken''")
        case (Inl e)
        with False call data res s' show ?thesis
          by (simp add: login.simps vars_def [symmetric] Let_def)
      next
        case a: (Inr a)
        obtain kvs where kvs: "result = PDict kvs" "map_of kvs ''accessToken'' = Some a"
          using a by (cases result) (auto split: option.splits)
        show ?thesis
        proof (cases "getitem result ''refreshToken''")
          case (Inl e)
          then have "map_of kvs ''refreshToken'' = None"
            using kvs by (auto split: option.splits)
          with pok kvs have "a = PNone" by (auto simp: tokens_ok_def)
          with False call data res a Inl show ?thesis
            by (simp add: login.simps vars_def [symmetric] Let_def session_ok_def)
        next
          case rt: (Inr rt)
          then have "map_of kvs ''refreshToken'' = Some rt"
            using kvs by (auto split: option.splits)
          with pok kvs have good: "a \<noteq> PNone \<longrightarrow> rt \<noteq> PNone" by (auto simp: tokens_ok_def)
          show ?thesis
          proof (cases "getitem result ''me''")
            case (Inl e)
            with False call data res a rt good show ?thesis
              by (simp add: login.simps vars_def [symmetric] Let_def session_ok_def)
          next
            case (Inr m)
            with False call data res a rt good show ?thesis
              by (simp add: login.simps vars_def [symmetric] Let_def session_ok_def save_me_tokens)
          qed
        qed
      qed
    qed
  qed
qed

lemma refresh_access_token_session_ok:
  assumes ok: "remote_ok ev" and s: "access_token s = PNone"
  shows "session_ok (snd (refresh_access_token ev s))"
proof (cases "truthy (refresh_token s)")
  case False
  then show ?thesis using s by (simp add: refresh_access_token.simps session_ok_def)
next
  case True
  then have rt: "refresh_token s \<noteq> PNone" by auto
  define vars where "vars = PDict [(''refreshTokenInput'', PDict [(''token'', refresh_token s)])]"
  obtain r s' where call: "make_request ev s (REFRESH_AUTH_TOKEN ev) vars False True = (r, s')"
    by (cases "make_request ev s (REFRESH_AUTH_TOKEN ev) vars False True")
  have tok: "refresh_token s' = refresh_token s" "access_token s' = PNone"
    using noauth_tokens [of ev s "REFRESH_AUTH_TOKEN ev" vars True] call s by auto
  show ?thesis
  proof (cases r)
    case (Inl exc)
    with True call tok show ?thesis
      by (simp add: refresh_access_token.simps vars_def [symmetric] Let_def log_def session_ok_def)
  next
    case data: (Inr data)
    have dok: "data_ok data" using noauth_data_ok [OF ok] call data by simp
    show ?thesis
    proof (cases "getitem data ''authRefreshToken''")
      case (Inl e)
      with True call data tok show ?thesis
        by (simp add: refresh_access_token.simps vars_def [symmetric] Let_def session_ok_def)
    next
      case res: (Inr tokens)
      have pok: "tokens_ok tokens" using dok res by (simp add: data_ok_def)
      show ?thesis
      proof (cases "get tokens ''accessToken'' PNone")
        case (Inl e)
        with True call data res tok show ?thesis
          by (simp add: refresh_access_token.simps vars_def [symmetric] Let_def session_ok_def)
      next
        case a: (Inr a)
        show ?thesis
        proof (cases "get tokens ''refreshToken'' PNone")
          case (Inl e)
          with True call data res a tok rt show ?thesis
            by (simp add: refresh_access_token.simps vars_def [symmetric] Let_def session_ok_def)
        next
          case (Inr b)
          with pok a have "a \<noteq> PNone \<longrightarrow> b \<noteq> PNone" by (simp add: tokens_ok_def)
          with True call data res a Inr show ?thesis
            by (simp add: refresh_access_token.simps vars_def [symmetric] Let_def log_def
                session_ok_def)
        qed
      qed
    qed
  qed
qed

lemma check_auth_session_ok:
  assumes ok: "remote_ok ev" and s: "session_ok s"
  shows "session_ok (snd (check_auth ev s))"
proof (cases "needs_login s")
  case True
  have "session_ok (log DEBUG ''Login required'' [] s)"
    using s by (simp add: session_ok_def log_def)
  from login_session_ok [OF ok this] True show ?thesis
    by (simp add: check_auth.simps)
next
  case False
  show ?thesis
  proof (cases "needs_refresh s")
    case True
    define t where "t = log DEBUG ''Access token needs to be refreshed'' [] s"
    have "access_token t = PNone" using True by (simp add: t_def log_def needs_refresh_def)
    from refresh_access_token_session_ok [OF ok this]
    have "session_ok (snd (refresh_access_token ev t))" .
    with False True show ?thesis
      by (cases "refresh_access_token ev t")
         (auto simp: check_auth.simps t_def [symmetric] split: sum.split)
  next
    case nr: False
    with False s show ?thesis by (simp add: check_auth.simps)
  qed
qed

lemma transmit_session_ok:
  assumes "session_ok s"
  shows "session_ok (outcome_state (transmit ev s q v h))"
  using transmit_tokens [of ev s q v h] assms by (auto simp: session_ok_def)

lemma make_request_session_ok:
  assumes ok: "remote_ok ev" and s: "session_ok s"
  shows "session_ok (snd (make_request ev s q v auth reauth))"
proof -
  have last: "session_ok (snd (make_request ev t q v True False))" if t: "session_ok t" for t
  proof (cases "check_auth ev t")
    case (Pair r t1)
    have t1: "session_ok t1" using check_auth_session_ok [OF ok t] Pair by simp
    from transmit_session_ok [OF t1, of ev q v "headers t1"] t1 Pair show ?thesis
      by (auto simp: make_request_last split: sum.split outcome.split)
  qed
  have first: "session_ok (snd (make_request ev s q v True True))"
  proof (cases "check_auth ev s")
    case (Pair r s1)
    have s1: "session_ok s1" using check_auth_session_ok [OF ok s] Pair by simp
    have o: "session_ok (outcome_state (transmit ev s1 q v (headers s1)))"
      by (rule transmit_session_ok [OF s1])
    have "session_ok (snd (make_request ev s4 q v True False))"
      if "transmit ev s1 q v (headers s1) = Expired s4" for s4
      using last [of s4] o that by simp
    with s1 o Pair show ?thesis
      by (auto simp: make_request_first split: sum.split outcome.split)
  qed
  show ?thesis
  proof (cases auth)
    case False
    then show ?thesis using transmit_session_ok [OF s, of ev q v "[]"] by (simp add: noauth_state)
  next
    case True
    then show ?thesis using first last [OF s] by (cases reauth) simp_all
  qed
qed


text \<open>The operations of the client change the tokens through the pipeline only.\<close>

lemma refresh_session_ok:
  assumes ok: "remote_ok ev" and s: "session_ok s"
  shows "session_ok (snd (refresh ev s))"
  using make_request_session_ok [OF ok s, of "ME_query ev" PNone True True]
  by (auto simp: refresh_def Let_def log_def session_ok_def save_me_tokens
      split: prod.split sum.split)

lemma feed_state:
  "snd (feed ev s first after last_n before) =
     snd (make_request ev s (FEED_query ev)
            (if truthy after then PDict [(''first'', first), (''after'', after)]
             else PDict [(''first'', first)]) True True)"
  unfolding feed_def Let_def
  by (simp split: prod.split sum.split)

lemma feed_session_ok:
  assumes ok: "remote_ok ev" and s: "session_ok s"
  shows "session_ok (snd (feed ev s first after last_n before))"
  unfolding feed_state by (rule make_request_session_ok [OF ok s])

lemma refresh_feed_session_ok:
  assumes ok: "remote_ok ev" and s: "session_ok s"
  shows "session_ok (snd (refresh_feed ev s since))"
proof (cases "since_value ev s since")
  case (Inl e)
  then show ?thesis using s by (simp add: refresh_feed_unfold)
next
  case (Inr since2)
  then show ?thesis
    using feed_session_ok [OF ok s, of "PInt 20" PNone PNone PNone]
    by (auto simp: refresh_feed_unfold log_def session_ok_def split: prod.split sum.split)
qed

lemma feed_nodes_session_ok:
  assumes ok: "remote_ok ev" and s: "session_ok s"
  shows "session_ok (snd (feed_nodes ev s ty))"
  using feed_session_ok [OF ok s, of "PInt 20" PNone PNone PNone]
  by (auto simp: feed_nodes_def split: prod.split sum.split)

lemma session_ok_log: "session_ok (log l f a s) = session_ok s"
  by (simp add: session_ok_def log_def)

lemma sighting_from_postcard_session_ok:
  assumes ok: "remote_ok ev" and s: "session_ok s"
  shows "session_ok (snd (sighting_from_postcard ev s pc))"
proof -
  have call: "session_ok (snd (make_request ev s (POSTCARD_TO_SIGHTING ev) v True True))" for v
    by (rule make_request_session_ok [OF ok s])
  show ?thesis
    unfolding sighting_from_postcard_def Let_def
    using call s
    by (auto split: prod.split sum.split postcard_arg.split) (metis snd_conv)+
qed

lemma finish_postcard_session_ok:
  assumes ok: "remote_ok ev" and s: "session_ok s"
  shows "session_ok (snd (finish_postcard ev s fid sr))"
proof -
  have call: "session_ok (snd (make_request ev s (FINISH_SIGHTING ev) v True True))" for v
    by (rule make_request_session_ok [OF ok s])
  show ?thesis
    unfolding finish_postcard_def Let_def
    using call s
    by (auto simp: session_ok_log split: prod.split sum.split sighting_arg.split)
       (metis snd_conv)+
qed

lemma refresh_collections_session_ok:
  assumes ok: "remote_ok ev" and s: "session_ok s"
  shows "session_ok (snd (refresh_collections ev s of_type))"
  using make_request_session_ok [OF ok s, of "COLLECTIONS_query ev" PNone True True]
  by (auto simp: refresh_collections_def Let_def session_ok_def simp del: capitalize.simps
      split: prod.split sum.split)

lemma collection_session_ok:
  assumes ok: "remote_ok ev" and s: "session_ok s"
  shows "session_ok (snd (collection ev s cid))"
  using make_request_session_ok
          [OF ok s, of "COLLECTIONS_MEDIA ev" "PDict [(''collectionId'', cid)]" True True]
  by (auto simp: collection_def split: prod.split sum.split)

text \<open>
  C3, as amended. Provided the remote answers sign-in and token refresh with payloads
  that carry a refresh token whenever they carry an access token, the session invariant
  holds after construction and is preserved by every operation: login, token refresh
  (called where \<open>_check_auth\<close> calls it), the pipeline with its expiry handling,
  session clearing and every public method. In no reachable client is the access token
  present while the refresh token is absent.
\<close>

theorem session_invariant:
  assumes "remote_ok ev" and "reachable ev s"
  shows "session_ok s"
  using assms(2)
proof (induction rule: reachable.induct)
  case (constructed e p)
  show ?case by (simp add: session_ok_def init_def)
next
  case (after_clear s)
  show ?case by (simp add: session_ok_def clear_def)
next
  case (after_login s)
  then show ?case by (simp add: login_session_ok [OF assms(1)])
next
  case (after_refresh_access_token s)
  then show ?case
    by (simp add: refresh_access_token_session_ok [OF assms(1)] needs_refresh_def)
next
  case (after_check_auth s)
  then show ?case by (simp add: check_auth_session_ok [OF assms(1)])
next
  case (after_make_request s q v auth reauth)
  then show ?case by (simp add: make_request_session_ok [OF assms(1)])
next
  case (after_dump_schema s)
  then show ?case by (simp add: dump_schema_def make_request_session_ok [OF assms(1)])
next
  case (after_refresh s)
  then show ?case by (simp add: refresh_session_ok [OF assms(1)])
next
  case (after_feed s first after last_n before)
  then show ?case by (simp add: feed_session_ok [OF assms(1)])
next
  case (after_refresh_feed s since)
  then show ?case by (simp add: refresh_feed_session_ok [OF assms(1)])
next
  case (after_feed_nodes s ty)
  then show ?case by (simp add: feed_nodes_session_ok [OF assms(1)])
next
  case (after_new_postcards s)
  then show ?case by (simp add: new_postcards_def feed_nodes_session_ok [OF assms(1)])
next
  case (after_sighting_from_postcard s pc)
  then show ?case by (simp add: sighting_from_postcard_session_ok [OF assms(1)])
next
  case (after_finish_postcard s fid sr)
  then show ?case by (simp add: finish_postcard_session_ok [OF assms(1)])
next
  case (after_refresh_collections s of_type)
  then show ?case by (simp add: refresh_collections_session_ok [OF assms(1)])
next
  case (after_get_collections s)
  then show ?case by (simp add: get_collections_def log_def session_ok_def)
next
  case (after_collection s cid)
  then show ?case by (simp add: collection_session_ok [OF assms(1)])
next
  case (after_get_feeders s)
  then show ?case by (simp add: get_feeders_def log_def session_ok_def)
qed


text \<open>A remote that signs in and then serves the profile answers with well-formed
  payloads.\<close>

lemma sample_remote_ok: "remote_ok (sample_env [signin_body, me_body])"
  by (auto simp: remote_ok_def sample_env_def scripted_def signin_body_def me_body_def
      data_ok_def tokens_ok_def nth_Cons' split: if_splits)

theorem session_invariant_witness:
  "remote_ok (sample_env [signin_body, me_body])
   \<and> reachable (sample_env [signin_body, me_body])
       (snd (refresh (sample_env [signin_body, me_body]) (init ''u@x.com'' ''pw'')))
   \<and> session_ok (snd (refresh (sample_env [signin_body, me_body]) (init ''u@x.com'' ''pw'')))
   \<and> access_token (snd (refresh (sample_env [signin_body, me_body]) (init ''u@x.com'' ''pw'')))
       = PStr ''AT1''
   \<and> refresh_token (snd (refresh (sample_env [signin_body, me_body]) (init ''u@x.com'' ''pw'')))
       = PStr ''RT1''"
proof -
  have r: "reachable (sample_env [signin_body, me_body])
             (snd (refresh (sample_env [signin_body, me_body]) (init ''u@x.com'' ''pw'')))"
    by (rule reachable.after_refresh) (rule reachable.constructed)
  have tokens:
    "access_token (snd (refresh (sample_env [signin_body, me_body]) (init ''u@x.com'' ''pw'')))
       = PStr ''AT1''
     \<and> refresh_token (snd (refresh (sample_env [signin_body, me_body]) (init ''u@x.com'' ''pw'')))
       = PStr ''RT1''"
    by (simp add: run_simps refresh_def save_me_def signin_body_def me_body_def)
  show ?thesis
    using session_invariant [OF sample_remote_ok r] sample_remote_ok r tokens by simp
qed

text \<open>
  C3 as stated fails: the client stores the tokens as the remote sends them. A sign-in
  payload with an access token and \<open>null\<close> for the refresh token leaves a client, reached
  from construction by one authentication check, that holds an access token and no
  refresh token.
\<close>

theorem session_invariant_counterexample:
  "reachable (sample_env [signin_no_refresh_body])
     (snd (check_auth (sample_env [signin_no_refresh_body]) (init ''u@x.com'' ''pw'')))
   \<and> access_token (snd (check_auth (sample_env [signin_no_refresh_body]) (init ''u@x.com'' ''pw'')))
       = PStr ''AT1''
   \<and> refresh_token (snd (check_auth (sample_env [signin_no_refresh_body]) (init ''u@x.com'' ''pw'')))
       = PNone"
proof -
  have "reachable (sample_env [signin_no_refresh_body])
     (snd (check_auth (sample_env [signin_no_refresh_body]) (init ''u@x.com'' ''pw'')))"
    by (rule reachable.after_check_auth) (rule reachable.constructed)
  then show ?thesis
    by (simp add: run_simps save_me_def signin_no_refresh_body_def)
qed

section \<open>The result of the authentication check\<close>

text \<open>Where no login is needed, the result of \<open>_check_auth\<close> is whether the client
  holds a refresh token afterwards.\<close>

lemma check_auth_without_login:
  assumes "\<not> needs_login s" and "fst (check_auth ev s) = Inr b"
  shows "b = (\<not> needs_login (snd (check_auth ev s)))"
proof (cases "needs_refresh s")
  case False
  with assms show ?thesis by (simp add: check_auth.simps)
next
  case True
  obtain r s' where
    "refresh_access_token ev (log DEBUG ''Access token needs to be refreshed'' [] s) = (r, s')"
    by (cases "refresh_access_token ev (log DEBUG ''Access token needs to be refreshed'' [] s)")
  with assms True show ?thesis
    by (cases r) (simp_all add: check_auth.simps)
qed

text \<open>
  C6. On the login path \<open>_check_auth\<close> returns what \<open>_login\<close> returns, which is the
  result of \<open>_save_me\<close>: whether a non-empty profile came with the tokens. When the
  remote signs the client in with both tokens and an empty profile, the result is
  \<open>False\<close> although the client now holds both tokens and needs no login.
\<close>

theorem check_auth_login_result:
  "fst (check_auth (sample_env [signin_no_profile_body]) (init ''u@x.com'' ''pw'')) = Inr False
   \<and> access_token (snd (check_auth (sample_env [signin_no_profile_body]) (init ''u@x.com'' ''pw'')))
       = PStr ''AT1''
   \<and> refresh_token (snd (check_auth (sample_env [signin_no_profile_body]) (init ''u@x.com'' ''pw'')))
       = PStr ''RT1''
   \<and> needs_login (snd (check_auth (sample_env [signin_no_profile_body]) (init ''u@x.com'' ''pw'')))
       = False"
  by (simp add: run_simps signin_no_profile_body_def save_me_def)

end
